theory Spec2Isabelle
  imports Complex_Main
begin

section \<open>Retention strings: \<open>RetentionManager.parseDays\<close> (src/store/retention.ts)\<close>

text \<open>
  \<open>parseDays\<close> returns a JavaScript number, an IEEE 754 double. The values it can return
  are \<open>Infinity\<close> and whole numbers that are not negative; \<open>Days n\<close> stands for the double
  that holds the whole number \<open>n\<close>.

  \<open>to_double n\<close> is the Number value for the natural number \<open>n\<close>: \<open>n\<close> itself up to
  \<open>2^53\<close>; beyond that a mantissa of 53 bits is kept and the rest is rounded to the nearest,
  a tie going to the even mantissa; a result of \<open>2^1024\<close> or more is \<open>Infinity\<close>.
  \<open>bit_length n\<close> is the number of binary digits of \<open>n\<close>.
\<close>

datatype days = Infinity | Days nat

fun bit_length :: "nat \<Rightarrow> nat" where
  "bit_length n = (if n = 0 then 0 else Suc (bit_length (n div 2)))"

declare bit_length.simps [simp del]

definition to_double :: "nat \<Rightarrow> days" where
  "to_double n =
     (let e = bit_length n - 53;
          q = n div 2 ^ e;
          r = n mod 2 ^ e;
          m = (if 2 ^ e < 2 * r \<or> (2 * r = 2 ^ e \<and> odd q) then q + 1 else q)
      in if 2 ^ 1024 \<le> m * 2 ^ e then Infinity else Days (m * 2 ^ e))"

text \<open>\<open>x * k\<close> for a whole number \<open>k > 0\<close>: the product, rounded once.\<close>

definition times_double :: "days \<Rightarrow> nat \<Rightarrow> days" where
  "times_double x k = (case x of Infinity \<Rightarrow> Infinity | Days n \<Rightarrow> to_double (n * k))"

definition is_digit :: "char \<Rightarrow> bool" where
  "is_digit c = (c \<in> set ''0123456789'')"

text \<open>
  \<open>parseInt(numStr, 10)\<close> on a string of decimal digits: the Number value for the integer
  that the digits denote, read left to right in base ten. (ECMAScript lets an engine
  replace the digits after the twentieth by zeros; V8 does not.)
\<close>

definition digit_value :: "char \<Rightarrow> nat" where
  "digit_value c = of_char c - 48"

definition parseInt10 :: "string \<Rightarrow> days" where
  "parseInt10 numStr = to_double (foldl (\<lambda>n c. 10 * n + digit_value c) 0 numStr)"

text \<open>
  \<open>retention.match(/^(\d+)(d|m|y)$/)\<close>: the whole string is one or more digits followed by
  exactly one unit letter. The match, when there is one, is unique: the unit is the last
  character and the number is everything before it.
\<close>

definition retention_match :: "string \<Rightarrow> (string \<times> char) option" where
  "retention_match retention =
     (if retention = [] then None
      else let numStr = butlast retention; unit = last retention
           in if numStr \<noteq> [] \<and> list_all is_digit numStr \<and> unit \<in> set ''dmy''
              then Some (numStr, unit) else None)"

definition parseDays :: "string \<Rightarrow> days" where
  "parseDays retention =
     (if retention = ''forever'' then Infinity
      else case retention_match retention of
             None \<Rightarrow> Days 30
           | Some (numStr, unit) \<Rightarrow>
               (let num = parseInt10 numStr
                in if unit = CHR ''d'' then num
                   else if unit = CHR ''m'' then times_double num 30
                   else if unit = CHR ''y'' then times_double num 365
                   else Days 30))"

text \<open>
  The number a digit string denotes, written positionally and without the means of
  \<open>parseInt10\<close>: a digit counts as its place among \<open>0123456789\<close>, the last digit counts
  units, the one before tens, ...
\<close>

definition digit_number :: "char \<Rightarrow> nat" where
  "digit_number c = length (takeWhile (\<lambda>d. d \<noteq> c) ''0123456789'')"

fun decimal :: "string \<Rightarrow> nat" where
  "decimal [] = 0"
| "decimal (c # cs) = digit_number c * 10 ^ length cs + decimal cs"

definition retention_form :: "string \<Rightarrow> bool" where
  "retention_form r = (\<exists>ds u. r = ds @ [u] \<and> ds \<noteq> [] \<and> list_all is_digit ds \<and> u \<in> set ''dmy'')"

text \<open>
  Rounding as IEEE 754 states it, without the means of \<open>to_double\<close>: \<open>v\<close> is the whole
  number nearest to \<open>n\<close> among the multiples of the spacing \<open>2^e\<close> that doubles have at the
  magnitude of \<open>n\<close> (spacing 1 below \<open>2^53\<close>); of two that are equally near, the one with
  the even multiplier.
\<close>

definition rounds_to :: "nat \<Rightarrow> nat \<Rightarrow> bool" where
  "rounds_to n v =
     (\<exists>m e. (e = 0 \<and> n < 2 ^ 53 \<or> 2 ^ (e + 52) \<le> n \<and> n < 2 ^ (e + 53))
            \<and> v = m * 2 ^ e
            \<and> (2 * \<bar>int v - int n\<bar> < 2 ^ e \<or> 2 * \<bar>int v - int n\<bar> = 2 ^ e \<and> even m))"



section \<open>Data model (src/types.ts)\<close>

text \<open>
  Strings are lists of characters. A \<open>Date\<close> is the instant it holds, in milliseconds since
  the Unix epoch (\<open>getTime()\<close>); invalid dates are outside the model. The counters and
  the duration are whole JavaScript numbers, modelled as integers.
\<close>

datatype task_status = pending | in_progress | completed | blocked

text \<open>
  The dates inside a task are stored as part of a JSON text. A property declared as
  \<open>Date\<close> therefore holds a \<open>Date\<close> object before a session is saved and the ISO-8601
  string that \<open>JSON.stringify\<close> wrote once it has been read back.
\<close>

datatype js_date = DateObj int | DateString string

text \<open>
  A JavaScript object keeps its properties in the order in which they were created, and
  \<open>JSON.stringify\<close> writes them in that order. \<open>task_keys\<close> is that order for a task: the
  names of its properties, each once. A property that the list leaves out is taken to
  come after the listed ones, in the order of the interface.
\<close>

datatype task_key =
  IdKey | DescriptionKey | StatusKey | CreatedAtKey | CompletedAtKey | RelatedFilesKey | NotesKey

record Task =
  task_keys :: "task_key list"
  task_id :: string
  task_description :: string
  status :: task_status
  createdAt :: js_date
  completedAt :: "js_date option"
  relatedFiles :: "string list option"
  task_notes :: "string option"

record SessionMemory =
  sid :: string
  claudeSessionId :: string
  projectPath :: string
  projectName :: string
  startedAt :: int
  endedAt :: int
  duration :: int
  summary :: string
  description :: string
  tasks :: "Task list"
  tasksCompleted :: int
  tasksPending :: int
  filesCreated :: "string list"
  filesModified :: "string list"
  filesDeleted :: "string list"
  lastUserMessage :: string
  lastAssistantMessage :: string
  nextSteps :: "string list"
  keyDecisions :: "string list"
  blockers :: "string list"
  tokensUsed :: int
  messagesCount :: int
  toolCallsCount :: int
  tags :: "string list"
  archived :: bool
  archivedAt :: "int option"
  synced :: "bool option"
  syncedAt :: "int option"
  logFile :: string
  logFileArchived :: "string option"

record SearchMatch =
  match_field :: string
  match_text :: string
  match_highlight :: string

record SearchResult =
  session :: SessionMemory
  score :: real
  matches :: "SearchMatch list"

record StorageStats =
  totalSessions :: nat
  activeSessions :: nat
  archivedSessions :: nat
  storageUsedBytes :: nat
  oldestSession :: "int option"
  newestSession :: "int option"


section \<open>JSON texts written by \<open>save\<close>\<close>

text \<open>
  \<open>Date.prototype.toISOString\<close>: the proleptic Gregorian date of the day number, then the
  time of day. Years outside 0..9999 are written with a sign and six digits.
\<close>

definition civil_from_days :: "int \<Rightarrow> int \<times> int \<times> int" where
  "civil_from_days day =
     (let z = day + 719468;
          era = z div 146097;
          doe = z mod 146097;
          yoe = (doe - doe div 1460 + doe div 36524 - doe div 146096) div 365;
          doy = doe - (365 * yoe + yoe div 4 - yoe div 100);
          mp = (5 * doy + 2) div 153;
          d = doy - (153 * mp + 2) div 5 + 1;
          m = (if mp < 10 then mp + 3 else mp - 9);
          y = yoe + era * 400 + (if m \<le> 2 then 1 else 0)
      in (y, m, d))"

fun pad :: "nat \<Rightarrow> nat \<Rightarrow> string" where
  "pad 0 v = []"
| "pad (Suc n) v = pad n (v div 10) @ [''0123456789'' ! (v mod 10)]"

definition toISOString :: "int \<Rightarrow> string" where
  "toISOString t =
     (let (y, m, d) = civil_from_days (t div 86400000);
          ms = nat (t mod 86400000);
          year = (if 0 \<le> y \<and> y \<le> 9999 then pad 4 (nat y)
                  else (if y < 0 then ''-'' else ''+'') @ pad 6 (nat \<bar>y\<bar>))
      in year @ ''-'' @ pad 2 (nat m) @ ''-'' @ pad 2 (nat d) @ ''T''
         @ pad 2 (ms div 3600000) @ '':'' @ pad 2 (ms div 60000 mod 60) @ '':''
         @ pad 2 (ms div 1000 mod 60) @ ''.'' @ pad 3 (ms mod 1000) @ ''Z'')"

text \<open>
  \<open>JSON.stringify\<close> calls \<open>toJSON\<close> on a \<open>Date\<close>, which gives its ISO string; a string
  stays as it is. \<open>JSON.parse\<close> does not turn the string back into a \<open>Date\<close>.
\<close>

definition js_date_text :: "js_date \<Rightarrow> string" where
  "js_date_text d = (case d of DateObj t \<Rightarrow> toISOString t | DateString s \<Rightarrow> s)"

text \<open>
  A JSON column is represented by the array it encodes: \<open>JSON.stringify\<close> of an array of
  strings followed by \<open>JSON.parse\<close> gives the array back. The text itself matters to the
  full-text index only, which tokenises it; it is rendered by the functions below
  (\<open>QuoteJSONString\<close> of ECMAScript for the strings, the properties of a task in the order
  in which the object holds them, absent optional properties left out).
\<close>

definition hex_digit :: "nat \<Rightarrow> char" where
  "hex_digit n = ''0123456789abcdef'' ! n"

definition json_escape :: "char \<Rightarrow> string" where
  "json_escape c =
     (if c = CHR 0x22 then [CHR 0x5C, CHR 0x22]
      else if c = CHR 0x5C then [CHR 0x5C, CHR 0x5C]
      else if c = CHR 0x08 then [CHR 0x5C, CHR ''b'']
      else if c = CHR 0x0C then [CHR 0x5C, CHR ''f'']
      else if c = CHR 0x0A then [CHR 0x5C, CHR ''n'']
      else if c = CHR 0x0D then [CHR 0x5C, CHR ''r'']
      else if c = CHR 0x09 then [CHR 0x5C, CHR ''t'']
      else if (of_char c :: nat) < 32
        then [CHR 0x5C, CHR ''u'', CHR ''0'', CHR ''0'',
              hex_digit (of_char c div 16), hex_digit (of_char c mod 16)]
      else [c])"

definition json_string :: "string \<Rightarrow> string" where
  "json_string s = [CHR 0x22] @ concat (map json_escape s) @ [CHR 0x22]"

fun join_comma :: "string list \<Rightarrow> string" where
  "join_comma [] = []"
| "join_comma [x] = x"
| "join_comma (x # y # ys) = x @ '','' @ join_comma (y # ys)"

definition json_array :: "string list \<Rightarrow> string" where
  "json_array items = ''['' @ join_comma items @ '']''"

definition json_strings :: "string list \<Rightarrow> string" where
  "json_strings xs = json_array (map json_string xs)"

definition json_member :: "string \<Rightarrow> string \<Rightarrow> string" where
  "json_member key val = json_string key @ '':'' @ val"

definition status_text :: "task_status \<Rightarrow> string" where
  "status_text s = (case s of pending \<Rightarrow> ''pending'' | in_progress \<Rightarrow> ''in_progress''
                     | completed \<Rightarrow> ''completed'' | blocked \<Rightarrow> ''blocked'')"

definition interface_keys :: "task_key list" where
  "interface_keys =
     [IdKey, DescriptionKey, StatusKey, CreatedAtKey, CompletedAtKey, RelatedFilesKey, NotesKey]"

definition property_order :: "Task \<Rightarrow> task_key list" where
  "property_order t =
     foldl (\<lambda>ks k. if k \<in> set ks then ks else ks @ [k]) [] (task_keys t @ interface_keys)"

text \<open>The member that \<open>JSON.stringify\<close> writes for a property; none for an absent one.\<close>

definition task_member :: "Task \<Rightarrow> task_key \<Rightarrow> string option" where
  "task_member t k =
     (case k of
        IdKey \<Rightarrow> Some (json_member ''id'' (json_string (task_id t)))
      | DescriptionKey \<Rightarrow> Some (json_member ''description'' (json_string (task_description t)))
      | StatusKey \<Rightarrow> Some (json_member ''status'' (json_string (status_text (status t))))
      | CreatedAtKey \<Rightarrow> Some (json_member ''createdAt'' (json_string (js_date_text (createdAt t))))
      | CompletedAtKey \<Rightarrow>
          map_option (\<lambda>d. json_member ''completedAt'' (json_string (js_date_text d))) (completedAt t)
      | RelatedFilesKey \<Rightarrow>
          map_option (\<lambda>fs. json_member ''relatedFiles'' (json_strings fs)) (relatedFiles t)
      | NotesKey \<Rightarrow> map_option (\<lambda>n. json_member ''notes'' (json_string n)) (task_notes t))"

definition json_task :: "Task \<Rightarrow> string" where
  "json_task t = ''{'' @ join_comma (List.map_filter (task_member t) (property_order t)) @ ''}''"

text \<open>
  What \<open>JSON.parse\<close> makes of the text of a task: the properties that were written, in the
  order in which they were written, the dates as the strings they were written as.
\<close>

definition task_toJSON :: "Task \<Rightarrow> Task" where
  "task_toJSON t =
     t\<lparr>task_keys := [k \<leftarrow> property_order t. task_member t k \<noteq> None],
       createdAt := DateString (js_date_text (createdAt t)),
       completedAt := map_option (\<lambda>d. DateString (js_date_text d)) (completedAt t)\<rparr>"

definition json_tasks :: "Task list \<Rightarrow> string" where
  "json_tasks ts = json_array (map json_task ts)"



section \<open>The database behind \<open>SessionStore\<close> (src/store/sessions.ts)\<close>

text \<open>
  A row of table \<open>sessions\<close>, one field per column of the \<open>CREATE TABLE\<close> statement.
  The only statement that inserts rows is the one in \<open>save\<close>, which binds a string to
  every text column, 0 or 1 to \<open>archived\<close> and \<open>synced\<close> and a JSON array to every
  \<open>_json\<close> column; so the text columns are strings, the two flags are booleans
  (\<open>True\<close> for 1), and a nullable column that \<open>save\<close> can set to \<open>NULL\<close> is an option.
\<close>

record row =
  col_id :: string
  col_claude_session_id :: string
  col_project_path :: string
  col_project_name :: string
  col_started_at :: int
  col_ended_at :: int
  col_duration :: int
  col_summary :: string
  col_description :: string
  col_tasks_json :: "Task list"
  col_tasks_completed :: int
  col_tasks_pending :: int
  col_files_created_json :: "string list"
  col_files_modified_json :: "string list"
  col_files_deleted_json :: "string list"
  col_last_user_message :: string
  col_last_assistant_message :: string
  col_next_steps_json :: "string list"
  col_key_decisions_json :: "string list"
  col_blockers_json :: "string list"
  col_tokens_used :: int
  col_messages_count :: int
  col_tool_calls_count :: int
  col_tags_json :: "string list"
  col_archived :: bool
  col_archived_at :: "int option"
  col_synced :: bool
  col_synced_at :: "int option"
  col_log_file :: string
  col_log_file_archived :: "string option"
  col_created_at :: int
  col_updated_at :: int

text \<open>The column names of \<open>sessions\<close> and of the virtual table \<open>sessions_fts\<close>, as declared.\<close>

definition sessions_columns :: "string list" where
  "sessions_columns =
     [''id'', ''claude_session_id'', ''project_path'', ''project_name'', ''started_at'',
      ''ended_at'', ''duration'', ''summary'', ''description'', ''tasks_json'',
      ''tasks_completed'', ''tasks_pending'', ''files_created_json'', ''files_modified_json'',
      ''files_deleted_json'', ''last_user_message'', ''last_assistant_message'',
      ''next_steps_json'', ''key_decisions_json'', ''blockers_json'', ''tokens_used'',
      ''messages_count'', ''tool_calls_count'', ''tags_json'', ''archived'', ''archived_at'',
      ''synced'', ''synced_at'', ''log_file'', ''log_file_archived'', ''created_at'',
      ''updated_at'']"

definition sessions_fts_columns :: "string list" where
  "sessions_fts_columns =
     [''id'', ''summary'', ''description'', ''tasks_text'', ''files_text'',
      ''last_user_message'', ''last_assistant_message'', ''tags_text'']"

text \<open>
  The full-text index \<open>sessions_fts\<close> (FTS5, default tokenizer), for ASCII text.
  The tokenizer splits a text into its maximal runs of letters and digits and folds them
  to lower case (characters beyond ASCII are taken as letters here).
\<close>

definition ascii_lower :: "char \<Rightarrow> char" where
  "ascii_lower c =
     (case map_of (zip ''ABCDEFGHIJKLMNOPQRSTUVWXYZ'' ''abcdefghijklmnopqrstuvwxyz'') c of
        Some l \<Rightarrow> l | None \<Rightarrow> c)"

definition is_token_char :: "char \<Rightarrow> bool" where
  "is_token_char c =
     (c \<in> set ''abcdefghijklmnopqrstuvwxyzABCDEFGHIJKLMNOPQRSTUVWXYZ0123456789''
      \<or> (128::nat) \<le> of_char c)"

fun split_tokens :: "string \<Rightarrow> string \<Rightarrow> string list" where
  "split_tokens cur [] = (if cur = [] then [] else [cur])"
| "split_tokens cur (c # cs) =
     (if is_token_char c then split_tokens (cur @ [ascii_lower c]) cs
      else (if cur = [] then [] else [cur]) @ split_tokens [] cs)"

definition tokenize :: "string \<Rightarrow> string list" where
  "tokenize s = split_tokens [] s"

text \<open>
  The index is a set of postings: a token with the rowid, the column (counted from 0) and
  the offset (the number of tokens before it in that column) at which it occurs.
  \<^item> \<open>INSERT INTO sessions_fts(rowid, ...)\<close> adds the postings of the eight texts. The index
    is not told whether it already holds postings for that rowid; for a token of the new
    texts the new postings take the place of the ones it held under that rowid, and the
    postings of other tokens under that rowid stay.
  \<^item> \<open>INSERT INTO sessions_fts(sessions_fts, rowid, ...) VALUES('delete', ...)\<close> removes, under
    that rowid, the postings of every token of the eight texts it is given.
\<close>

type_synonym posting = "int \<times> string \<times> nat \<times> nat"

definition fts5_postings :: "int \<Rightarrow> string list \<Rightarrow> posting list" where
  "fts5_postings rowid vals =
     concat (map (\<lambda>(col, v). map (\<lambda>(off, t). (rowid, t, col, off)) (enumerate 0 (tokenize v)))
                 (enumerate 0 vals))"

definition fts5_delete :: "int \<Rightarrow> string list \<Rightarrow> posting list \<Rightarrow> posting list" where
  "fts5_delete rowid vals fts =
     [p \<leftarrow> fts. \<not> (fst p = rowid \<and> fst (snd p) \<in> set (concat (map tokenize vals)))]"

definition fts5_insert :: "int \<Rightarrow> string list \<Rightarrow> posting list \<Rightarrow> posting list" where
  "fts5_insert rowid vals fts = fts5_delete rowid vals fts @ fts5_postings rowid vals"

text \<open>
  A phrase matches a rowid when its tokens occur there in one column at consecutive
  offsets, the last token of the phrase as a prefix (\<open>starts_with t q\<close>: the list \<open>t\<close>
  begins with the list \<open>q\<close>).
\<close>

fun starts_with :: "'a list \<Rightarrow> 'a list \<Rightarrow> bool" where
  "starts_with t [] = True"
| "starts_with [] (c # q) = False"
| "starts_with (d # t) (c # q) = (d = c \<and> starts_with t q)"

fun phrase_at :: "posting list \<Rightarrow> int \<Rightarrow> nat \<Rightarrow> nat \<Rightarrow> string list \<Rightarrow> bool" where
  "phrase_at fts rowid col off [] = True"
| "phrase_at fts rowid col off [q] =
     list_ex (\<lambda>(r, t, c, i). r = rowid \<and> c = col \<and> i = off \<and> starts_with t q) fts"
| "phrase_at fts rowid col off (q # qs) =
     ((rowid, q, col, off) \<in> set fts \<and> phrase_at fts rowid col (Suc off) qs)"

definition fts5_match :: "string \<Rightarrow> posting list \<Rightarrow> bool" where
  "fts5_match phrase fts =
     (let qs = tokenize phrase
      in qs \<noteq> [] \<and> list_ex (\<lambda>(r, t, c, i). phrase_at fts r c i qs) fts)"

text \<open>
  The state of the database: the rows of \<open>sessions\<close> with their rowids, in rowid order,
  and the postings of the full-text index. \<open>dbPath\<close> is the constructor's argument.
  \<open>recursive_triggers\<close> is the connection's pragma of that name: the constructor sets
  \<open>journal_mode\<close> and \<open>synchronous\<close> only, so it has the engine's default (off, unless
  the engine was built otherwise). It decides whether the rows that \<open>INSERT OR REPLACE\<close>
  removes fire the delete trigger.
\<close>

record store =
  dbPath :: string
  recursive_triggers :: bool
  sessions :: "(int \<times> row) list"
  sessions_fts :: "posting list"

definition new_store :: "string \<Rightarrow> bool \<Rightarrow> store" where
  "new_store path rt = \<lparr>dbPath = path, recursive_triggers = rt, sessions = [], sessions_fts = []\<rparr>"

text \<open>The three triggers of \<open>initialize\<close>.\<close>

definition fts_values :: "row \<Rightarrow> string list" where
  "fts_values r =
     [col_id r, col_summary r, col_description r, json_tasks (col_tasks_json r),
      json_strings (col_files_created_json r) @ '' '' @ json_strings (col_files_modified_json r),
      col_last_user_message r, col_last_assistant_message r, json_strings (col_tags_json r)]"

definition sessions_ai :: "int \<times> row \<Rightarrow> posting list \<Rightarrow> posting list" where
  "sessions_ai new fts = fts5_insert (fst new) (fts_values (snd new)) fts"

definition sessions_ad :: "int \<times> row \<Rightarrow> posting list \<Rightarrow> posting list" where
  "sessions_ad old fts = fts5_delete (fst old) (fts_values (snd old)) fts"

definition sessions_au :: "int \<times> row \<Rightarrow> int \<times> row \<Rightarrow> posting list \<Rightarrow> posting list" where
  "sessions_au old new fts = sessions_ai new (sessions_ad old fts)"

text \<open>A new row gets the rowid after the largest one in the table.\<close>

definition new_rowid :: "(int \<times> row) list \<Rightarrow> int" where
  "new_rowid tbl = foldr max (map fst tbl) 0 + 1"

text \<open>
  \<open>UPDATE sessions SET ... WHERE ...\<close> and \<open>DELETE FROM sessions WHERE ...\<close>: the rows
  that satisfy the condition are changed or removed, the trigger fires for each of them,
  and the number of them is the statement's \<open>changes\<close>.
\<close>

definition sql_update :: "(row \<Rightarrow> bool) \<Rightarrow> (row \<Rightarrow> row) \<Rightarrow> store \<Rightarrow> nat \<times> store" where
  "sql_update cond set_cols st =
     (length [e \<leftarrow> sessions st. cond (snd e)],
      st\<lparr>sessions := map (\<lambda>e. if cond (snd e) then (fst e, set_cols (snd e)) else e) (sessions st),
         sessions_fts := foldl (\<lambda>fts e. if cond (snd e)
                                          then sessions_au e (fst e, set_cols (snd e)) fts else fts)
                               (sessions_fts st) (sessions st)\<rparr>)"

definition sql_delete :: "(row \<Rightarrow> bool) \<Rightarrow> store \<Rightarrow> nat \<times> store" where
  "sql_delete cond st =
     (length [e \<leftarrow> sessions st. cond (snd e)],
      st\<lparr>sessions := [e \<leftarrow> sessions st. \<not> cond (snd e)],
         sessions_fts := foldl (\<lambda>fts e. if cond (snd e) then sessions_ad e fts else fts)
                               (sessions_fts st) (sessions st)\<rparr>)"

text \<open>
  \<open>ORDER BY started_at DESC\<close>. SQL leaves the order of rows with equal keys open; the
  engine returns them in rowid order, which is what a stable sort of the table gives.
  \<open>LIMIT n\<close> with a negative \<open>n\<close> is no limit.
\<close>

definition order_by_started_at_desc :: "row list \<Rightarrow> row list" where
  "order_by_started_at_desc rows = sort_key (\<lambda>r. - col_started_at r) rows"

definition sql_limit :: "int \<Rightarrow> 'a list \<Rightarrow> 'a list" where
  "sql_limit n rows = (if n < 0 then rows else take (nat n) rows)"


section \<open>\<open>SessionStore\<close>: writing and reading sessions\<close>

text \<open>
  JavaScript's \<open>x || null\<close> on a number and on a string, and the test \<open>x ? ... : undefined\<close>
  of \<open>rowToSession\<close>: 0 and the empty string count as absent.
\<close>

definition number_or_null :: "int option \<Rightarrow> int option" where
  "number_or_null x = (case x of None \<Rightarrow> None | Some n \<Rightarrow> if n = 0 then None else Some n)"

definition string_or_null :: "string option \<Rightarrow> string option" where
  "string_or_null x = (case x of None \<Rightarrow> None | Some s \<Rightarrow> if s = [] then None else Some s)"

text \<open>
  The values \<open>save\<close> binds to the statement, in the order of the source. \<open>created_at\<close> is
  not bound: it takes the column default, the current time in whole seconds.
\<close>

definition bind_row :: "int \<Rightarrow> SessionMemory \<Rightarrow> row" where
  "bind_row now s =
     \<lparr>col_id = sid s,
      col_claude_session_id = claudeSessionId s,
      col_project_path = projectPath s,
      col_project_name = projectName s,
      col_started_at = startedAt s,
      col_ended_at = endedAt s,
      col_duration = duration s,
      col_summary = summary s,
      col_description = description s,
      col_tasks_json = map task_toJSON (tasks s),
      col_tasks_completed = tasksCompleted s,
      col_tasks_pending = tasksPending s,
      col_files_created_json = filesCreated s,
      col_files_modified_json = filesModified s,
      col_files_deleted_json = filesDeleted s,
      col_last_user_message = lastUserMessage s,
      col_last_assistant_message = lastAssistantMessage s,
      col_next_steps_json = nextSteps s,
      col_key_decisions_json = keyDecisions s,
      col_blockers_json = blockers s,
      col_tokens_used = tokensUsed s,
      col_messages_count = messagesCount s,
      col_tool_calls_count = toolCallsCount s,
      col_tags_json = tags s,
      col_archived = archived s,
      col_archived_at = number_or_null (archivedAt s),
      col_synced = (synced s = Some True),
      col_synced_at = number_or_null (syncedAt s),
      col_log_file = logFile s,
      col_log_file_archived = string_or_null (logFileArchived s),
      col_created_at = now div 1000 * 1000,
      col_updated_at = now\<rparr>"

text \<open>
  \<open>INSERT OR REPLACE\<close>: the row with the same primary key is removed, the new row is
  added under a new rowid, and the insert trigger fires for it. The delete trigger fires
  for the removed row only when recursive triggers are on.
\<close>

definition save :: "int \<Rightarrow> SessionMemory \<Rightarrow> store \<Rightarrow> store" where
  "save now s st =
     (let new = (new_rowid (sessions st), bind_row now s);
          replaced = [e \<leftarrow> sessions st. col_id (snd e) = sid s];
          fts = (if recursive_triggers st
                 then foldl (\<lambda>fts e. sessions_ad e fts) (sessions_fts st) replaced
                 else sessions_fts st)
      in st\<lparr>sessions := [e \<leftarrow> sessions st. col_id (snd e) \<noteq> sid s] @ [new],
            sessions_fts := sessions_ai new fts\<rparr>)"

definition rowToSession :: "row \<Rightarrow> SessionMemory" where
  "rowToSession r =
     \<lparr>sid = col_id r,
      claudeSessionId = col_claude_session_id r,
      projectPath = col_project_path r,
      projectName = col_project_name r,
      startedAt = col_started_at r,
      endedAt = col_ended_at r,
      duration = col_duration r,
      summary = col_summary r,
      description = col_description r,
      tasks = col_tasks_json r,
      tasksCompleted = col_tasks_completed r,
      tasksPending = col_tasks_pending r,
      filesCreated = col_files_created_json r,
      filesModified = col_files_modified_json r,
      filesDeleted = col_files_deleted_json r,
      lastUserMessage = col_last_user_message r,
      lastAssistantMessage = col_last_assistant_message r,
      nextSteps = col_next_steps_json r,
      keyDecisions = col_key_decisions_json r,
      blockers = col_blockers_json r,
      tokensUsed = col_tokens_used r,
      messagesCount = col_messages_count r,
      toolCallsCount = col_tool_calls_count r,
      tags = col_tags_json r,
      archived = col_archived r,
      archivedAt = number_or_null (col_archived_at r),
      synced = Some (col_synced r),
      syncedAt = number_or_null (col_synced_at r),
      logFile = col_log_file r,
      logFileArchived = string_or_null (col_log_file_archived r)\<rparr>"

definition table_rows :: "store \<Rightarrow> row list" where
  "table_rows st = map snd (sessions st)"

definition getById :: "string \<Rightarrow> store \<Rightarrow> SessionMemory option" where
  "getById i st = map_option rowToSession (find (\<lambda>r. col_id r = i) (table_rows st))"

definition getAll :: "bool \<Rightarrow> store \<Rightarrow> SessionMemory list" where
  "getAll includeArchived st =
     map rowToSession
       (order_by_started_at_desc
          [r \<leftarrow> table_rows st. includeArchived \<or> \<not> col_archived r])"

text \<open>
  \<open>getArchived\<close>: \<open>ORDER BY archived_at DESC\<close> puts the rows without a value last.
\<close>

definition getArchived :: "store \<Rightarrow> SessionMemory list" where
  "getArchived st =
     map rowToSession
       (sort_key (\<lambda>r. - the (col_archived_at r))
          [r \<leftarrow> table_rows st. col_archived r \<and> col_archived_at r \<noteq> None]
        @ [r \<leftarrow> table_rows st. col_archived r \<and> col_archived_at r = None])"

text \<open>
  \<open>archiveOld\<close> reads the clock twice: \<open>t_cutoff\<close> is the reading the cutoff is computed
  from, \<open>t_stamp\<close> the one written to \<open>archived_at\<close>.
\<close>

definition archiveOld :: "int \<Rightarrow> int \<Rightarrow> int \<Rightarrow> store \<Rightarrow> nat \<times> store" where
  "archiveOld t_cutoff t_stamp olderThanDays st =
     (let cutoff = t_cutoff - olderThanDays * 24 * 60 * 60 * 1000
      in sql_update (\<lambda>r. col_started_at r < cutoff \<and> \<not> col_archived r)
                    (\<lambda>r. r\<lparr>col_archived := True, col_archived_at := Some t_stamp\<rparr>) st)"

definition deleteOld :: "int \<Rightarrow> int \<Rightarrow> store \<Rightarrow> nat \<times> store" where
  "deleteOld now olderThanDays st =
     (let cutoff = now - olderThanDays * 24 * 60 * 60 * 1000
      in sql_delete (\<lambda>r. col_started_at r < cutoff) st)"

definition updateArchivePath :: "int \<Rightarrow> string \<Rightarrow> string \<Rightarrow> store \<Rightarrow> store" where
  "updateArchivePath now i archivePath st =
     snd (sql_update (\<lambda>r. col_id r = i)
            (\<lambda>r. r\<lparr>col_log_file_archived := Some archivePath, col_updated_at := now\<rparr>) st)"

definition delete :: "string \<Rightarrow> store \<Rightarrow> bool \<times> store" where
  "delete i st = (let (changes, st') = sql_delete (\<lambda>r. col_id r = i) st in (changes > 0, st'))"


text \<open>
  The files the code looks at: the regular files that exist, each with its size in bytes,
  and the home directory that \<open>os.homedir()\<close> returns.
\<close>

record env =
  homedir :: string
  files :: "(string \<times> nat) list"

definition DB_DIR :: "env \<Rightarrow> string" where
  "DB_DIR e = homedir e @ ''/.cc-sessions''"

definition DB_PATH :: "env \<Rightarrow> string" where
  "DB_PATH e = DB_DIR e @ ''/index.db''"

definition existsSync :: "string \<Rightarrow> env \<Rightarrow> bool" where
  "existsSync p e = (map_of (files e) p \<noteq> None)"

definition statSync_size :: "string \<Rightarrow> env \<Rightarrow> nat" where
  "statSync_size p e = (case map_of (files e) p of Some n \<Rightarrow> n | None \<Rightarrow> 0)"

definition unlinkSync :: "string \<Rightarrow> env \<Rightarrow> env" where
  "unlinkSync p e = e\<lparr>files := [f \<leftarrow> files e. fst f \<noteq> p]\<rparr>"

definition writeFileSync :: "string \<Rightarrow> nat \<Rightarrow> env \<Rightarrow> env" where
  "writeFileSync p n e = e\<lparr>files := [f \<leftarrow> files e. fst f \<noteq> p] @ [(p, n)]\<rparr>"

text \<open>\<open>MIN(started_at)\<close> and \<open>MAX(started_at)\<close>: \<open>NULL\<close> over an empty table.\<close>

definition sql_min :: "int list \<Rightarrow> int option" where
  "sql_min xs = (case xs of [] \<Rightarrow> None | y # ys \<Rightarrow> Some (fold min ys y))"

definition sql_max :: "int list \<Rightarrow> int option" where
  "sql_max xs = (case xs of [] \<Rightarrow> None | y # ys \<Rightarrow> Some (fold max ys y))"

definition getStats :: "env \<Rightarrow> store \<Rightarrow> StorageStats" where
  "getStats e st =
     (let rows = table_rows st;
          dbSize = (if existsSync (DB_PATH e) e then statSync_size (DB_PATH e) e else 0)
      in \<lparr>totalSessions = length rows,
          activeSessions = length [r \<leftarrow> rows. \<not> col_archived r],
          archivedSessions = length [r \<leftarrow> rows. col_archived r],
          storageUsedBytes = dbSize,
          oldestSession = number_or_null (sql_min (map col_started_at rows)),
          newestSession = number_or_null (sql_max (map col_started_at rows))\<rparr>)"


section \<open>\<open>SessionStore.search\<close> and the full-text index\<close>

text \<open>
  What the engine does with the statement of \<open>search\<close>, for ASCII text.
  \<^item> The argument of \<open>MATCH\<close> built by \<open>search\<close> is one quoted string followed by \<open>*\<close>:
    a phrase whose last token may be a prefix. A phrase without tokens matches nothing.
  \<^item> The engine reads the argument as a C string, up to the first NUL character; when
    that cuts off the closing quote the string is unterminated and the statement fails.
  \<^item> \<open>sessions_fts\<close> is declared with \<open>content='sessions'\<close>: the index keeps tokens only,
    and the values of a matching row (for \<open>sessions_fts.id\<close> and \<open>highlight\<close>) are
    read from table \<open>sessions\<close> under the column names of \<open>sessions_fts\<close>. Three of these
    names are not columns of \<open>sessions\<close>, so reading the first matching row fails with
    \<open>no such column\<close>: the statement returns rows only when nothing matches.
  \<^item> \<open>LIMIT 0\<close> returns no row without running the query.
\<close>

definition cstring :: "string \<Rightarrow> string" where
  "cstring s = takeWhile (\<lambda>c. c \<noteq> CHR 0x00) s"

fun fts5_string_body :: "string \<Rightarrow> string option" where
  "fts5_string_body [] = None"
| "fts5_string_body (c # cs) =
     (if c = CHR 0x22 then Some [] else map_option ((#) c) (fts5_string_body cs))"

definition fts5_parse :: "string \<Rightarrow> string option" where
  "fts5_parse arg =
     (case cstring arg of [] \<Rightarrow> None
      | c # cs \<Rightarrow> if c = CHR 0x22 then fts5_string_body cs else None)"

datatype sqlite_error = SqliteError string

record fts_row =
  fts_session :: row
  summary_hl :: string
  description_hl :: string
  bm25 :: real

definition missing_content_columns :: "string list" where
  "missing_content_columns = [c \<leftarrow> sessions_fts_columns. c \<notin> set sessions_columns]"

definition fts_stmt_all :: "string \<Rightarrow> int \<Rightarrow> store \<Rightarrow> sqlite_error + fts_row list" where
  "fts_stmt_all arg limit st =
     (if limit = 0 then Inr []
      else case fts5_parse arg of
             None \<Rightarrow> Inl (SqliteError ''unterminated string'')
           | Some phrase \<Rightarrow>
               if fts5_match phrase (sessions_fts st)
               then Inl (SqliteError (''no such column: T.'' @ hd missing_content_columns))
               else Inr [])"

definition rowToSearchResult :: "fts_row \<Rightarrow> SearchResult" where
  "rowToSearchResult r =
     \<lparr>session = rowToSession (fts_session r),
      score = \<bar>bm25 r\<bar>,
      matches =
        (if summary_hl r \<noteq> []
         then [\<lparr>match_field = ''summary'', match_text = col_summary (fts_session r),
                match_highlight = summary_hl r\<rparr>] else [])
        @ (if description_hl r \<noteq> []
           then [\<lparr>match_field = ''description'', match_text = col_description (fts_session r),
                  match_highlight = description_hl r\<rparr>] else [])\<rparr>"

text \<open>
  \<open>LIKE\<close> of SQLite: \<open>%\<close> stands for any run of characters, \<open>_\<close> for any one character,
  letters of ASCII match in either case, and both operands are read up to their first NUL.
\<close>

fun like_match :: "string \<Rightarrow> string \<Rightarrow> bool" where
  "like_match [] t = (t = [])"
| "like_match (p # ps) [] = (p = CHR ''%'' \<and> like_match ps [])"
| "like_match (p # ps) (c # cs) =
     (if p = CHR ''%'' then like_match ps (c # cs) \<or> like_match (p # ps) cs
      else (p = CHR ''_'' \<or> ascii_lower p = ascii_lower c) \<and> like_match ps cs)"

definition sql_like :: "string \<Rightarrow> string \<Rightarrow> bool" where
  "sql_like text pattern = like_match (cstring pattern) (cstring text)"

definition simplSearch :: "string \<Rightarrow> int \<Rightarrow> store \<Rightarrow> SearchResult list" where
  "simplSearch query limit st =
     (let pattern = ''%'' @ query @ ''%'';
          rows = sql_limit limit
                   (order_by_started_at_desc
                      [r \<leftarrow> table_rows st.
                         sql_like (col_summary r) pattern \<or> sql_like (col_description r) pattern
                         \<or> sql_like (col_last_user_message r) pattern])
      in map (\<lambda>r. \<lparr>session = rowToSession r, score = 1,
                   matches = [\<lparr>match_field = ''summary'', match_text = col_summary r,
                                match_highlight = col_summary r\<rparr>]\<rparr>) rows)"

definition search :: "string \<Rightarrow> int \<Rightarrow> store \<Rightarrow> SearchResult list" where
  "search query limit st =
     (let escapedQuery = [c \<leftarrow> query. c \<noteq> CHR 0x27 \<and> c \<noteq> CHR 0x22]
      in case fts_stmt_all ([CHR 0x22] @ escapedQuery @ [CHR 0x22] @ ''*'') limit st of
           Inr rows \<Rightarrow> map rowToSearchResult rows
         | Inl error \<Rightarrow> simplSearch query limit st)"


section \<open>\<open>SearchIndex.getRelated\<close>\<close>

text \<open>The body of the scoring callback: two loops that add to \<open>score\<close>.\<close>

definition relatedScore :: "SessionMemory \<Rightarrow> SessionMemory \<Rightarrow> nat" where
  "relatedScore target s =
     (let allFiles = filesCreated target @ filesModified target;
          score0 = (if projectPath s = projectPath target then 5 else 0);
          sFiles = filesCreated s @ filesModified s;
          score1 = fold (\<lambda>file score. if file \<in> set sFiles then score + 3 else score) allFiles score0;
          score2 = fold (\<lambda>tag score. if tag \<in> set (tags s) then score + 2 else score) (tags target) score1
      in score2)"

text \<open>
  \<open>Array.prototype.slice(0, end)\<close>: a negative \<open>end\<close> counts from the end of the array.
  \<open>Array.prototype.sort\<close> is stable, so sorting by \<open>b.score - a.score\<close> is a stable sort
  by descending score.
\<close>

definition js_slice0 :: "int \<Rightarrow> 'a list \<Rightarrow> 'a list" where
  "js_slice0 end xs = (if end < 0 then take (nat (int (length xs) + end)) xs else take (nat end) xs)"

definition getRelated :: "string \<Rightarrow> int \<Rightarrow> store \<Rightarrow> SessionMemory list" where
  "getRelated sessionId limit st =
     (case getById sessionId st of
        None \<Rightarrow> []
      | Some target \<Rightarrow>
          (let candidates = [s \<leftarrow> getAll False st. sid s \<noteq> sessionId];
               scored = map (\<lambda>s. (s, relatedScore target s)) candidates
           in map fst (js_slice0 limit
                (sort_key (\<lambda>p. - int (snd p)) [p \<leftarrow> scored. snd p > 0]))))"



section \<open>\<open>RetentionManager.runCleanup\<close> (src/store/retention.ts)\<close>

record RetentionConfig =
  fullSessions :: string
  archives :: string
  searchIndex :: string
  overrideClaudeRetention :: bool
  maxStorageGb :: real

record CleanupReport =
  sessionsArchived :: nat
  sessionsDeleted :: nat
  bytesFreed :: nat
  logFilesBackedUp :: nat

definition ARCHIVE_DIR :: "env \<Rightarrow> string" where
  "ARCHIVE_DIR e = homedir e @ ''/.cc-sessions/archive''"

text \<open>
  \<open>calculateStorageUsed\<close>: \<open>getDirSize\<close> adds up the sizes of all files below
  \<open>~/.cc-sessions\<close>, at any depth.
\<close>

definition getDirSize :: "string \<Rightarrow> env \<Rightarrow> nat" where
  "getDirSize dir e = sum_list (map snd [f \<leftarrow> files e. starts_with (fst f) (dir @ ''/'')])"

definition calculateStorageUsed :: "env \<Rightarrow> nat" where
  "calculateStorageUsed e = getDirSize (homedir e @ ''/.cc-sessions'') e"

text \<open>
  \<open>compressLogFile\<close>. The model keeps the sizes of files, not their contents, so the size
  of the compressed copy of a log is given by \<open>gzipSize\<close>, for each log file.
  The clock is read as one instant \<open>now\<close> during a cleanup run.
\<close>

definition compressLogFile ::
  "(string \<Rightarrow> nat) \<Rightarrow> int \<Rightarrow> SessionMemory \<Rightarrow> env \<times> store \<Rightarrow> string option \<times> env \<times> store" where
  "compressLogFile gzipSize now s es =
     (let (e, st) = es
      in if logFile s = [] \<or> \<not> existsSync (logFile s) e then (None, e, st)
         else let archivePath = ARCHIVE_DIR e @ ''/'' @ sid s @ ''.jsonl.gz''
              in (Some archivePath,
                  writeFileSync archivePath (gzipSize (logFile s)) e,
                  updateArchivePath now (sid s) archivePath st))"

fun compress_loop ::
  "(string \<Rightarrow> nat) \<Rightarrow> int \<Rightarrow> SessionMemory list \<Rightarrow> nat \<times> env \<times> store \<Rightarrow> nat \<times> env \<times> store" where
  "compress_loop gzipSize now [] acc = acc"
| "compress_loop gzipSize now (s # ss) (backedUp, e, st) =
     (if logFile s \<noteq> [] \<and> logFileArchived s = None
      then (case compressLogFile gzipSize now s (e, st) of
              (Some p, e', st') \<Rightarrow> compress_loop gzipSize now ss (backedUp + 1, e', st')
            | (None, e', st') \<Rightarrow> compress_loop gzipSize now ss (backedUp, e', st'))
      else compress_loop gzipSize now ss (backedUp, e, st))"

text \<open>
  The loop of \<open>trimToStorageLimit\<close>, with \<open>currentSize\<close> and the two counters of \<open>result\<close>
  as loop state. Deleting a row does not give pages of the database file back to the file
  system (the code never vacuums), so \<open>store.delete\<close> leaves the file sizes as they are.
\<close>

fun trim_loop ::
  "real \<Rightarrow> SessionMemory list \<Rightarrow> nat \<times> nat \<times> nat \<times> env \<times> store \<Rightarrow> nat \<times> nat \<times> nat \<times> env \<times> store" where
  "trim_loop maxBytes [] acc = acc"
| "trim_loop maxBytes (s # ss) (currentSize, deleted, freed, e, st) =
     (if real currentSize \<le> maxBytes then (currentSize, deleted, freed, e, st)
      else
        let (freed1, e1) =
              (case logFileArchived s of
                 Some p \<Rightarrow> if p \<noteq> [] \<and> existsSync p e
                           then (freed + statSync_size p e, unlinkSync p e) else (freed, e)
               | None \<Rightarrow> (freed, e));
            (existed, st1) = delete (sid s) st;
            (deleted1, freed2) = (if existed then (deleted + 1, freed1 + 5000) else (deleted, freed1))
        in trim_loop maxBytes ss (calculateStorageUsed e1, deleted1, freed2, e1, st1))"

definition trimToStorageLimit :: "real \<Rightarrow> env \<times> store \<Rightarrow> (nat \<times> nat) \<times> env \<times> store" where
  "trimToStorageLimit maxBytes es =
     (let (e, st) = es;
          sorted = sort_key startedAt (getAll True st);
          (currentSize, deleted, freed, e', st') =
             trim_loop maxBytes sorted (calculateStorageUsed e, 0, 0, e, st)
      in ((deleted, freed), e', st'))"

text \<open>Steps 1 and 3 of \<open>runCleanup\<close>, each skipped when its retention period is \<open>forever\<close>.\<close>

definition archive_step :: "int \<Rightarrow> RetentionConfig \<Rightarrow> store \<Rightarrow> nat \<times> store" where
  "archive_step now config st =
     (case parseDays (fullSessions config) of
        Infinity \<Rightarrow> (0, st)
      | Days fullDays \<Rightarrow> archiveOld now now (int fullDays) st)"

definition delete_step :: "int \<Rightarrow> RetentionConfig \<Rightarrow> env \<Rightarrow> store \<Rightarrow> nat \<times> nat \<times> store" where
  "delete_step now config e st =
     (case parseDays (archives config) of
        Infinity \<Rightarrow> (0, 0, st)
      | Days archiveDays \<Rightarrow>
          (let beforeCount = totalSessions (getStats e st);
               (deleted, st') = deleteOld now (int archiveDays) st;
               afterCount = totalSessions (getStats e st')
           in (deleted, if deleted > 0 then (beforeCount - afterCount) * 5000 else 0, st')))"

definition runCleanup ::
  "(string \<Rightarrow> nat) \<Rightarrow> int \<Rightarrow> RetentionConfig \<Rightarrow> env \<times> store \<Rightarrow> CleanupReport \<times> env \<times> store" where
  "runCleanup gzipSize now config es =
     (let (e0, st0) = es;
          (archivedCount, st1) = archive_step now config st0;
          (backedUp, e2, st2) = compress_loop gzipSize now (getArchived st1) (0, e0, st1);
          (deletedCount, freed, st3) = delete_step now config e2 st2;
          stats = getStats e2 st3;
          maxBytes = maxStorageGb config * 1000000000
      in if real (storageUsedBytes stats) > maxBytes
         then let ((trimDeleted, trimFreed), e4, st4) = trimToStorageLimit maxBytes (e2, st3)
              in (\<lparr>sessionsArchived = archivedCount, sessionsDeleted = deletedCount + trimDeleted,
                   bytesFreed = freed + trimFreed, logFilesBackedUp = backedUp\<rparr>, e4, st4)
         else (\<lparr>sessionsArchived = archivedCount, sessionsDeleted = deletedCount,
                bytesFreed = freed, logFilesBackedUp = backedUp\<rparr>, e2, st3))"


section \<open>Sessions used as examples\<close>

text \<open>
  \<open>createTestSession\<close> of tests/store/sessions.test.ts, with the identifier as its
  parameter and a fixed instant for the \<open>new Date()\<close> of its two tasks. It leaves \<open>synced\<close>
  and the other optional properties out.
\<close>

definition createTestSession :: "string \<Rightarrow> SessionMemory" where
  "createTestSession i =
     \<lparr>sid = i,
      claudeSessionId = ''claude-session-123'',
      projectPath = ''/test/project'',
      projectName = ''test-project'',
      startedAt = 1736676000000,
      endedAt = 1736679600000,
      duration = 60,
      summary = ''Test session summary'',
      description = ''Test session description'',
      tasks = [\<lparr>task_keys = [IdKey, DescriptionKey, StatusKey, CreatedAtKey],
                 task_id = ''1'', task_description = ''Task 1'', status = completed,
                 createdAt = DateObj 1736676000000, completedAt = None,
                 relatedFiles = None, task_notes = None\<rparr>,
               \<lparr>task_keys = [IdKey, DescriptionKey, StatusKey, CreatedAtKey],
                 task_id = ''2'', task_description = ''Task 2'', status = pending,
                 createdAt = DateObj 1736676000000, completedAt = None,
                 relatedFiles = None, task_notes = None\<rparr>],
      tasksCompleted = 1,
      tasksPending = 1,
      filesCreated = [''/test/file1.ts''],
      filesModified = [''/test/file2.ts''],
      filesDeleted = [],
      lastUserMessage = ''Last user message'',
      lastAssistantMessage = ''Last assistant message'',
      nextSteps = [''Next step 1''],
      keyDecisions = [''Decision 1''],
      blockers = [],
      tokensUsed = 5000,
      messagesCount = 10,
      toolCallsCount = 5,
      tags = [''test'', ''typescript''],
      archived = False,
      archivedAt = None,
      synced = None,
      syncedAt = None,
      logFile = ''/test/log.jsonl'',
      logFileArchived = None\<rparr>"

text \<open>
  A session without tasks that was archived at the Unix epoch. It satisfies the invariant
  of the data model that an archived session has its \<open>archivedAt\<close> set.
\<close>

definition epoch_archived :: SessionMemory where
  "epoch_archived =
     (createTestSession ''test_epoch'')
       \<lparr>tasks := [], archived := True, archivedAt := Some 0, synced := Some False\<rparr>"


text \<open>
  Two sessions for the optional properties: in the first all three hold the value that
  JavaScript takes for false (the Unix epoch twice and the empty string), in the second
  they hold ordinary values.
\<close>

definition falsy_optionals :: SessionMemory where
  "falsy_optionals =
     (createTestSession ''test_falsy'')
       \<lparr>tasks := [], archived := True, archivedAt := Some 0, synced := Some True,
        syncedAt := Some 0, logFileArchived := Some []\<rparr>"

definition plain_optionals :: SessionMemory where
  "plain_optionals =
     (createTestSession ''test_plain'')
       \<lparr>tasks := [], archived := True, archivedAt := Some 1736679600000, synced := Some True,
        syncedAt := Some 1736679660000,
        logFileArchived := Some ''/home/user/.cc-sessions/archive/test_plain.jsonl.gz''\<rparr>"


text \<open>
  The scenario of section 8 of the specification and of the \<open>archiveOld\<close> test: session A
  started 100 days before \<open>scenario_now\<close>, session B at \<open>scenario_now\<close>, both saved into
  a new store that was opened on the path the tests use.
\<close>

definition scenario_now :: int where
  "scenario_now = 1736676000000"

definition scenario_store :: store where
  "scenario_store =
     save scenario_now ((createTestSession ''new_session'')\<lparr>startedAt := scenario_now\<rparr>)
       (save scenario_now
          ((createTestSession ''old_session'')
             \<lparr>startedAt := scenario_now - 100 * 24 * 60 * 60 * 1000\<rparr>)
          (new_store ''/tmp/cc-sessions-store-test/test.db'' False))"


text \<open>
  The files in the situation of the test suite: the database file that the store of
  \<open>scenario_store\<close> was opened on exists and has 4096 bytes, and nothing exists below the
  home directory.
\<close>

definition test_env :: env where
  "test_env = \<lparr>homedir = ''/home/user'', files = [(''/tmp/cc-sessions-store-test/test.db'', 4096)]\<rparr>"


text \<open>
  The score of \<open>getRelated\<close> in the words of the specification: 5 for the same project,
  3 for each path in the target's created and modified lists that is among the
  candidate's, 2 for each tag of the target that is among the candidate's.
\<close>

definition related_points :: "SessionMemory \<Rightarrow> SessionMemory \<Rightarrow> nat" where
  "related_points target s =
     (if projectPath s = projectPath target then 5 else 0)
     + 3 * length [f \<leftarrow> filesCreated target @ filesModified target.
                     f \<in> set (filesCreated s @ filesModified s)]
     + 2 * length [t \<leftarrow> tags target. t \<in> set (tags s)]"

text \<open>
  Five sessions for \<open>getRelated\<close>: \<open>a\<close> is the target; \<open>b\<close> shares its project, \<open>c\<close> one
  file and one tag, \<open>d\<close> shares everything but is archived, \<open>e\<close> shares nothing.
\<close>

definition related_session ::
  "string \<Rightarrow> string \<Rightarrow> int \<Rightarrow> string list \<Rightarrow> string list \<Rightarrow> bool \<Rightarrow> SessionMemory" where
  "related_session i project started fs ts arch =
     (createTestSession i)
       \<lparr>projectPath := project, startedAt := started, tasks := [], filesCreated := fs,
        filesModified := [], tags := ts, archived := arch\<rparr>"

definition related_store :: store where
  "related_store =
     save 6 (related_session ''e'' ''/p3'' 500 [''z.ts''] [''docs''] False)
       (save 5 (related_session ''d'' ''/p1'' 400 [''x.ts'', ''y.ts''] [''auth''] True)
         (save 4 (related_session ''c'' ''/p2'' 300 [''y.ts''] [''auth''] False)
           (save 3 (related_session ''b'' ''/p1'' 200 [] [] False)
             (save 2 (related_session ''a'' ''/p1'' 100 [''x.ts'', ''y.ts''] [''auth''] False)
               (new_store ''/tmp/related.db'' False)))))"




text \<open>
  What the reading operations can see of a row: everything but the two bookkeeping
  timestamps \<open>created_at\<close> and \<open>updated_at\<close>, which no operation of the store returns.
\<close>

definition visible :: "row \<Rightarrow> row" where
  "visible r = r\<lparr>col_created_at := 0, col_updated_at := 0\<rparr>"

text \<open>The update of the test \<open>should update existing session on save\<close>.\<close>

definition updated_session :: SessionMemory where
  "updated_session = (createTestSession ''old_session'')\<lparr>summary := ''Updated summary'', tasksCompleted := 2\<rparr>"


text \<open>
  A session that is saved several times while it goes on, its summary changing, and the
  store in which it was saved three times and then deleted; a second session, saved
  afterwards. The store is at the default path, opened as the constructor opens it.
\<close>

definition progress_session :: "string \<Rightarrow> SessionMemory" where
  "progress_session text =
     (createTestSession ''session_1'')\<lparr>tasks := [], summary := text\<rparr>"

definition fix_session :: SessionMemory where
  "fix_session =
     (createTestSession ''session_2'')
       \<lparr>tasks := [], summary := ''Fix logout'', description := ''Bugfix logins''\<rparr>"

definition reused_store :: store where
  "reused_store =
     snd (delete ''session_1''
       (save 103 (progress_session ''Add tests'')
         (save 102 (progress_session ''Update login page'')
           (save 101 (progress_session ''Read the code'')
             (new_store ''/home/user/.cc-sessions/index.db'' False)))))"


text \<open>
  A situation for \<open>runCleanup\<close>: the database is at the default path and has 4096 bytes,
  it holds one archived session, and the compressed log of that session in the archive
  directory has two gigabytes. Both retention periods are \<open>forever\<close> and the storage limit
  is one gigabyte.
\<close>

definition quota_env :: env where
  "quota_env =
     \<lparr>homedir = ''/home/user'',
      files = [(''/home/user/.cc-sessions/index.db'', 4096),
               (''/home/user/.cc-sessions/archive/old_session.jsonl.gz'', 2000000000)]\<rparr>"

definition quota_store :: store where
  "quota_store =
     save scenario_now
       ((createTestSession ''old_session'')
          \<lparr>tasks := [], archived := True, archivedAt := Some scenario_now,
           logFileArchived := Some ''/home/user/.cc-sessions/archive/old_session.jsonl.gz''\<rparr>)
       (new_store ''/home/user/.cc-sessions/index.db'' False)"

definition quota_config :: RetentionConfig where
  "quota_config =
     \<lparr>fullSessions = ''forever'', archives = ''forever'', searchIndex = ''forever'',
      overrideClaudeRetention = False, maxStorageGb = 1\<rparr>"

section \<open>Properties of \<open>parseDays\<close>\<close>

lemma bit_length_0: "bit_length 0 = 0"
  by (subst bit_length.simps) simp

lemma bit_length_1: "bit_length (Suc 0) = Suc 0"
  by (subst bit_length.simps) (simp add: bit_length_0)

lemma bit_length_bounds: "0 < n \<Longrightarrow> 2 ^ (bit_length n - 1) \<le> n \<and> n < 2 ^ bit_length n"
proof (induction n rule: less_induct)
  case (less n)
  from less.prems have bl: "bit_length n = Suc (bit_length (n div 2))"
    by (subst bit_length.simps) simp
  show ?case
  proof (cases "n div 2 = 0")
    case True
    with less.prems have "n = Suc 0" by (simp add: div_eq_0_iff)
    then show ?thesis by (simp add: bit_length_1)
  next
    case False
    with less.IH [of "n div 2"] less.prems
    have ih: "2 ^ (bit_length (n div 2) - 1) \<le> n div 2" "n div 2 < 2 ^ bit_length (n div 2)"
      by simp_all
    from False have pos: "0 < bit_length (n div 2)"
      by (subst bit_length.simps) simp
    have "2 ^ (bit_length n - 1) = 2 * 2 ^ (bit_length (n div 2) - 1)"
      using pos bl by (cases "bit_length (n div 2)") simp_all
    also have "\<dots> \<le> 2 * (n div 2)" using ih(1) by simp
    also have "\<dots> \<le> n" by simp
    finally have lo: "2 ^ (bit_length n - 1) \<le> n" .
    have "n < 2 * (n div 2) + 2" by presburger
    also have "\<dots> \<le> 2 * 2 ^ bit_length (n div 2)" using ih(2) by simp
    finally have "n < 2 ^ bit_length n" using bl by simp
    with lo show ?thesis by simp
  qed
qed

lemma bit_length_eq:
  assumes "2 ^ k \<le> n" "n < 2 ^ Suc k"
  shows "bit_length n = Suc k"
proof -
  from assms(1) have pos: "0 < n" by (metis gr0I not_le zero_less_numeral zero_less_power)
  from bit_length_bounds [OF pos] have lo: "2 ^ (bit_length n - 1) \<le> n" and hi: "n < 2 ^ bit_length n"
    by simp_all
  from assms(1) hi have "(2::nat) ^ k < 2 ^ bit_length n" by (rule le_less_trans)
  then have a: "k < bit_length n" by (rule power_less_imp_less_exp [rotated]) simp
  from lo assms(2) have "(2::nat) ^ (bit_length n - 1) < 2 ^ Suc k" by (rule le_less_trans)
  then have "bit_length n - 1 < Suc k" by (rule power_less_imp_less_exp [rotated]) simp
  with a show ?thesis by simp
qed

lemma bit_length_small: "n < 2 ^ k \<Longrightarrow> bit_length n \<le> k"
proof (cases "n = 0")
  case True
  then show ?thesis by (simp add: bit_length_0)
next
  case False
  assume "n < 2 ^ k"
  moreover from bit_length_bounds [of n] False have "2 ^ (bit_length n - 1) \<le> n" by simp
  ultimately have "(2::nat) ^ (bit_length n - 1) < 2 ^ k" by (rule le_less_trans [rotated])
  then have "bit_length n - 1 < k" by (rule power_less_imp_less_exp [rotated]) simp
  then show ?thesis by simp
qed

lemma to_double_exact: "n \<le> 2 ^ 53 \<Longrightarrow> to_double n = Days n"
proof (cases "n = 2 ^ 53")
  case True
  have "bit_length ((2::nat) ^ 53) = Suc 53" by (rule bit_length_eq) simp_all
  with True show ?thesis by (simp add: to_double_def Let_def)
next
  case False
  assume "n \<le> 2 ^ 53"
  with False have "n < 2 ^ 53" by simp
  then have "bit_length n \<le> 53" by (rule bit_length_small)
  then have e: "bit_length n - 53 = 0" by simp
  have "n < 2 ^ 1024" using \<open>n < 2 ^ 53\<close> by (rule less_trans) simp
  then show ?thesis by (simp add: to_double_def Let_def e)
qed

lemma to_double_rounds:
  "\<exists>v. rounds_to n v \<and> to_double n = (if 2 ^ 1024 \<le> v then Infinity else Days v)"
proof -
  define e where "e = bit_length n - 53"
  define q where "q = n div 2 ^ e"
  define r where "r = n mod 2 ^ e"
  define m where "m = (if 2 ^ e < 2 * r \<or> (2 * r = 2 ^ e \<and> odd q) then q + 1 else q)"
  have n: "n = q * 2 ^ e + r" unfolding q_def r_def by (rule div_mult_mod_eq [symmetric])
  have r: "r < 2 ^ e" by (simp add: r_def)
  have val: "to_double n = (if 2 ^ 1024 \<le> m * 2 ^ e then Infinity else Days (m * 2 ^ e))"
    by (simp add: to_double_def Let_def e_def q_def r_def m_def)
  have range: "e = 0 \<and> n < 2 ^ 53 \<or> 2 ^ (e + 52) \<le> n \<and> n < 2 ^ (e + 53)"
  proof (cases "bit_length n \<le> 53")
    case True
    then have "e = 0" by (simp add: e_def)
    moreover have "n < 2 ^ 53"
    proof (cases "n = 0")
      case True
      then show ?thesis by simp
    next
      case False
      then have "n < 2 ^ bit_length n" using bit_length_bounds [of n] by simp
      also have "\<dots> \<le> 2 ^ 53" using True by (intro power_increasing) simp_all
      finally show ?thesis .
    qed
    ultimately show ?thesis by simp
  next
    case False
    then have bl: "bit_length n = e + 53" by (simp add: e_def)
    then have pos: "0 < n" by (cases "n = 0") (simp_all add: bit_length_0)
    from bl have "bit_length n - 1 = e + 52" by simp
    with bit_length_bounds [OF pos] bl have "2 ^ (e + 52) \<le> n \<and> n < 2 ^ (e + 53)"
      by (simp add: add.commute)
    then show ?thesis by (rule disjI2)
  qed
  have err: "2 * \<bar>int (m * 2 ^ e) - int n\<bar> < 2 ^ e
             \<or> 2 * \<bar>int (m * 2 ^ e) - int n\<bar> = 2 ^ e \<and> even m"
  proof (cases "2 ^ e < 2 * r \<or> (2 * r = 2 ^ e \<and> odd q)")
    case True
    then have m: "m = q + 1" by (simp add: m_def)
    then have d: "int (m * 2 ^ e) - int n = 2 ^ e - int r"
      using n by (simp add: algebra_simps)
    from r have r': "int r < 2 ^ e"
      by (metis of_nat_less_iff of_nat_numeral of_nat_power)
    from True show ?thesis
    proof
      assume "2 ^ e < 2 * r"
      then have "2 ^ e < 2 * int r"
        by (metis of_nat_less_iff of_nat_numeral of_nat_power of_nat_mult)
      with d r' show ?thesis by simp
    next
      assume t: "2 * r = 2 ^ e \<and> odd q"
      then have "2 * int r = 2 ^ e"
        by (metis of_nat_numeral of_nat_power of_nat_mult)
      with d t m show ?thesis by simp
    qed
  next
    case False
    then have m: "m = q" by (simp add: m_def)
    then have d: "int (m * 2 ^ e) - int n = - int r"
      using n by simp
    from False have "2 * r < 2 ^ e \<or> 2 * r = 2 ^ e \<and> even q" by auto
    then show ?thesis
    proof
      assume "2 * r < 2 ^ e"
      then have "2 * int r < 2 ^ e"
        by (metis of_nat_less_iff of_nat_numeral of_nat_power of_nat_mult)
      with d show ?thesis by simp
    next
      assume t: "2 * r = 2 ^ e \<and> even q"
      then have "2 * int r = 2 ^ e"
        by (metis of_nat_numeral of_nat_power of_nat_mult)
      with d t m show ?thesis by simp
    qed
  qed
  from range err have "rounds_to n (m * 2 ^ e)"
    unfolding rounds_to_def by blast
  with val show ?thesis by blast
qed

lemma rounds_to_unique:
  assumes "rounds_to n v" "rounds_to n v'"
  shows "v = v'"
proof -
  from assms(1) obtain m e where
    range: "e = 0 \<and> n < 2 ^ 53 \<or> 2 ^ (e + 52) \<le> n \<and> n < 2 ^ (e + 53)"
    and v: "v = m * 2 ^ e"
    and near: "2 * \<bar>int v - int n\<bar> < 2 ^ e \<or> 2 * \<bar>int v - int n\<bar> = 2 ^ e \<and> even m"
    unfolding rounds_to_def by blast
  from assms(2) obtain m' e' where
    range': "e' = 0 \<and> n < 2 ^ 53 \<or> 2 ^ (e' + 52) \<le> n \<and> n < 2 ^ (e' + 53)"
    and v': "v' = m' * 2 ^ e'"
    and near': "2 * \<bar>int v' - int n\<bar> < 2 ^ e' \<or> 2 * \<bar>int v' - int n\<bar> = 2 ^ e' \<and> even m'"
    unfolding rounds_to_def by blast
  have low: "k = 0" if "2 ^ (k + 52) \<le> n" "n < 2 ^ 53" for k
  proof -
    from that have "(2::nat) ^ (k + 52) < 2 ^ 53" by (rule le_less_trans)
    then have "k + 52 < 53" by (rule power_less_imp_less_exp [rotated]) simp
    then show ?thesis by simp
  qed
  have ord: "j \<le> k" if "2 ^ (j + 52) \<le> n" "n < 2 ^ (k + 53)" for j k
  proof -
    from that have "(2::nat) ^ (j + 52) < 2 ^ (k + 53)" by (rule le_less_trans)
    then have "j + 52 < k + 53" by (rule power_less_imp_less_exp [rotated]) simp
    then show ?thesis by simp
  qed
  have e: "e' = e"
    using range range' low [of e] low [of e'] ord [of e e'] ord [of e' e] by auto
  define P :: int where "P = 2 ^ e"
  have P: "0 < P" by (simp add: P_def)
  have a: "int v = int m * P" and b: "int v' = int m' * P"
    by (simp_all add: v v' e P_def)
  from near have n1: "2 * \<bar>int v - int n\<bar> \<le> P" by (auto simp: P_def)
  from near' have n2: "2 * \<bar>int v' - int n\<bar> \<le> P" by (auto simp: P_def e)
  have "\<bar>int m - int m'\<bar> * P = \<bar>int v - int v'\<bar>"
    using P by (simp add: a b abs_mult left_diff_distrib [symmetric])
  also have "\<dots> \<le> P" using n1 n2 by (simp add: abs_if split: if_splits)
  finally have "\<bar>int m - int m'\<bar> * P \<le> 1 * P" by simp
  then have close: "\<bar>int m - int m'\<bar> \<le> 1" using P by (simp only: mult_le_cancel_right)
  have "int m = int m'"
  proof (rule ccontr)
    assume "int m \<noteq> int m'"
    with close have one: "\<bar>int m - int m'\<bar> = 1" by linarith
    then have "\<bar>int v - int v'\<bar> = P"
      using P by (simp add: a b abs_mult left_diff_distrib [symmetric])
    with n1 n2 have "2 * \<bar>int v - int n\<bar> = P" "2 * \<bar>int v' - int n\<bar> = P"
      by (simp_all add: abs_if split: if_splits)
    with near near' have "even m" "even m'" by (auto simp: P_def e)
    then have "even (int m - int m')" by simp
    with one show False by presburger
  qed
  then show ?thesis by (simp add: v v' e)
qed

lemma to_double_large: "2 ^ 1024 \<le> n \<Longrightarrow> to_double n = Infinity"
proof -
  assume big: "2 ^ 1024 \<le> n"
  define e where "e = bit_length n - 53"
  define q where "q = n div 2 ^ e"
  define r where "r = n mod 2 ^ e"
  define m where "m = (if 2 ^ e < 2 * r \<or> (2 * r = 2 ^ e \<and> odd q) then q + 1 else q)"
  from big have pos: "0 < n" by (metis gr0I not_le zero_less_numeral zero_less_power)
  have "(2::nat) ^ 1024 \<le> n" by (rule big)
  also have "n < 2 ^ bit_length n" using bit_length_bounds [OF pos] by simp
  finally have "1024 < bit_length n" by (rule power_less_imp_less_exp [rotated]) simp
  then have e: "bit_length n = e + 53" and e971: "972 \<le> e" by (simp_all add: e_def)
  have "2 ^ (bit_length n - 1) \<le> n" using bit_length_bounds [OF pos] by simp
  moreover have "bit_length n - 1 = 52 + e" using e by simp
  ultimately have "2 ^ (52 + e) \<le> n" by simp
  then have "2 ^ 52 * 2 ^ e \<le> n" by (simp only: power_add)
  then have "2 ^ 52 \<le> q" unfolding q_def by (simp only: less_eq_div_iff_mult_less_eq zero_less_power zero_less_numeral)
  moreover have "q \<le> m" by (simp add: m_def)
  ultimately have "2 ^ 52 \<le> m" by (rule le_trans)
  then have "2 ^ 52 * 2 ^ e \<le> m * 2 ^ e" by (rule mult_le_mono1)
  then have "2 ^ (52 + e) \<le> m * 2 ^ e" by (simp only: power_add)
  moreover have "(2::nat) ^ 1024 \<le> 2 ^ (52 + e)" using e971 by (intro power_increasing) simp_all
  ultimately have "2 ^ 1024 \<le> m * 2 ^ e" by (rule le_trans [rotated])
  moreover have "to_double n = (if 2 ^ 1024 \<le> m * 2 ^ e then Infinity else Days (m * 2 ^ e))"
    by (simp add: to_double_def Let_def e_def q_def r_def m_def)
  ultimately show ?thesis by (simp only: if_True)
qed

lemma digit_value_number:
  assumes "is_digit c"
  shows "digit_value c = digit_number c"
proof -
  from assms have "c \<in> set ''0123456789''" by (simp only: is_digit_def)
  then consider "c = CHR ''0''" | "c = CHR ''1''" | "c = CHR ''2''" | "c = CHR ''3''" | "c = CHR ''4''"
    | "c = CHR ''5''" | "c = CHR ''6''" | "c = CHR ''7''" | "c = CHR ''8''" | "c = CHR ''9''"
    by auto
  then show ?thesis
    by cases (simp_all add: digit_value_def digit_number_def)
qed

lemma foldl_decimal:
  "list_all is_digit ds \<Longrightarrow>
     foldl (\<lambda>n c. 10 * n + digit_value c) a ds = a * 10 ^ length ds + decimal ds"
  by (induction ds arbitrary: a) (simp_all add: algebra_simps digit_value_number)

lemma parseInt10_decimal: "list_all is_digit ds \<Longrightarrow> parseInt10 ds = to_double (decimal ds)"
  by (simp add: parseInt10_def foldl_decimal)

lemma retention_match_form:
  assumes "ds \<noteq> []" "list_all is_digit ds" "u \<in> set ''dmy''"
  shows "retention_match (ds @ [u]) = Some (ds, u)"
  using assms by (simp add: retention_match_def)

lemma form_not_forever:
  assumes "ds \<noteq> []" "list_all is_digit ds"
  shows "ds @ [u] \<noteq> ''forever''"
proof
  assume "ds @ [u] = ''forever''"
  then have "butlast (ds @ [u]) = butlast ''forever''" by simp
  then have "ds = ''foreve''" by simp
  with assms(2) show False by (simp add: is_digit_def)
qed

lemma parseDays_digits:
  assumes "ds \<noteq> []" "list_all is_digit ds"
  shows "parseDays (ds @ ''d'') = to_double (decimal ds)"
    and "parseDays (ds @ ''m'') = times_double (to_double (decimal ds)) 30"
    and "parseDays (ds @ ''y'') = times_double (to_double (decimal ds)) 365"
  using assms form_not_forever [OF assms] retention_match_form [OF assms]
  by (simp_all add: parseDays_def parseInt10_decimal)

lemma times_double_exact:
  assumes "n * k \<le> 2 ^ 53" "0 < k"
  shows "times_double (to_double n) k = Days (n * k)"
proof -
  from assms(2) have "n \<le> n * k" by simp
  then have "n \<le> 2 ^ 53" using assms(1) by (rule le_trans)
  then have "to_double n = Days n" by (rule to_double_exact)
  with assms(1) show ?thesis by (simp only: times_double_def days.case to_double_exact)
qed

lemma times_double_large:
  assumes "2 ^ 1024 \<le> n"
  shows "times_double (to_double n) k = Infinity"
  using to_double_large [OF assms] by (simp only: times_double_def days.case)

lemma retention_match_None: "\<not> retention_form r \<Longrightarrow> retention_match r = None"
proof (cases "r = []")
  case True
  then show ?thesis by (simp add: retention_match_def)
next
  case False
  assume nf: "\<not> retention_form r"
  from False have r: "r = butlast r @ [last r]" by simp
  show ?thesis
  proof (rule ccontr)
    assume "retention_match r \<noteq> None"
    with False have "butlast r \<noteq> []" "list_all is_digit (butlast r)" "last r \<in> set ''dmy''"
      by (auto simp: retention_match_def Let_def split: if_splits)
    with r have "retention_form r" unfolding retention_form_def by blast
    with nf show False by contradiction
  qed
qed

lemma times_double_rounds:
  assumes "to_double n = (if 2 ^ 1024 \<le> v then Infinity else Days v)"
  shows "\<exists>w. rounds_to (v * k) w
          \<and> times_double (to_double n) k = (if 2 ^ 1024 \<le> v \<or> 2 ^ 1024 \<le> w then Infinity else Days w)"
proof -
  from to_double_rounds [of "v * k"] obtain w where
    w: "rounds_to (v * k) w" "to_double (v * k) = (if 2 ^ 1024 \<le> w then Infinity else Days w)"
    by blast
  show ?thesis
  proof (cases "2 ^ 1024 \<le> v")
    case True
    with assms have "times_double (to_double n) k = Infinity"
      by (simp only: times_double_def if_True days.case)
    with True w(1) show ?thesis by auto
  next
    case False
    with assms have "times_double (to_double n) k = to_double (v * k)"
      by (simp only: times_double_def if_False days.case)
    with False w show ?thesis by auto
  qed
qed

text \<open>
  C9, as amended. \<open>parseDays\<close> maps \<open>"forever"\<close> to \<open>Infinity\<close> and every string that is
  neither \<open>"forever"\<close> nor digits followed by \<open>d\<close>, \<open>m\<close> or \<open>y\<close> to 30; it is a total
  function, so no input makes it throw. A string of digits \<open>N\<close> followed by \<open>d\<close> is mapped
  to \<open>N\<close> rounded to a double, and followed by \<open>m\<close> or \<open>y\<close> to that double times 30 or
  365, rounded again; a result of \<open>2^1024\<close> or more is \<open>Infinity\<close>, the value that stands for
  \<open>forever\<close>. So the result is \<open>N\<close>, \<open>N * 30\<close> and \<open>N * 365\<close> itself as long as that does
  not exceed \<open>2^53\<close>, and it is \<open>Infinity\<close> from \<open>N = 2^1024\<close> on.
\<close>

theorem parseDays_spec:
  "parseDays ''forever'' = Infinity
   \<and> (\<forall>ds. ds \<noteq> [] \<and> list_all is_digit ds \<longrightarrow>
         (\<exists>v. rounds_to (decimal ds) v
            \<and> parseDays (ds @ ''d'') = (if 2 ^ 1024 \<le> v then Infinity else Days v)
            \<and> (\<exists>w. rounds_to (v * 30) w
                  \<and> parseDays (ds @ ''m'')
                      = (if 2 ^ 1024 \<le> v \<or> 2 ^ 1024 \<le> w then Infinity else Days w))
            \<and> (\<exists>w. rounds_to (v * 365) w
                  \<and> parseDays (ds @ ''y'')
                      = (if 2 ^ 1024 \<le> v \<or> 2 ^ 1024 \<le> w then Infinity else Days w)))
       \<and> (decimal ds \<le> 2 ^ 53 \<longrightarrow> parseDays (ds @ ''d'') = Days (decimal ds))
       \<and> (decimal ds * 30 \<le> 2 ^ 53 \<longrightarrow> parseDays (ds @ ''m'') = Days (decimal ds * 30))
       \<and> (decimal ds * 365 \<le> 2 ^ 53 \<longrightarrow> parseDays (ds @ ''y'') = Days (decimal ds * 365))
       \<and> (2 ^ 1024 \<le> decimal ds \<longrightarrow>
            parseDays (ds @ ''d'') = Infinity \<and> parseDays (ds @ ''m'') = Infinity
            \<and> parseDays (ds @ ''y'') = Infinity))
   \<and> (\<forall>r. r \<noteq> ''forever'' \<and> \<not> retention_form r \<longrightarrow> parseDays r = Days 30)"
proof (intro conjI allI impI)
  show "parseDays ''forever'' = Infinity" by (simp add: parseDays_def)
next
  fix r assume "r \<noteq> ''forever'' \<and> \<not> retention_form r"
  then show "parseDays r = Days 30"
    by (simp add: parseDays_def retention_match_None)
next
  fix ds assume a: "ds \<noteq> [] \<and> list_all is_digit ds"
  then have d: "parseDays (ds @ ''d'') = to_double (decimal ds)"
    and m: "parseDays (ds @ ''m'') = times_double (to_double (decimal ds)) 30"
    and y: "parseDays (ds @ ''y'') = times_double (to_double (decimal ds)) 365"
    using parseDays_digits [of ds] by blast+
  from to_double_rounds [of "decimal ds"] obtain v where
    v: "rounds_to (decimal ds) v"
       "to_double (decimal ds) = (if 2 ^ 1024 \<le> v then Infinity else Days v)"
    by blast
  from times_double_rounds [OF v(2), of 30] obtain w30 where
    w30: "rounds_to (v * 30) w30"
         "times_double (to_double (decimal ds)) 30
            = (if 2 ^ 1024 \<le> v \<or> 2 ^ 1024 \<le> w30 then Infinity else Days w30)"
    by blast
  from times_double_rounds [OF v(2), of 365] obtain w365 where
    w365: "rounds_to (v * 365) w365"
          "times_double (to_double (decimal ds)) 365
             = (if 2 ^ 1024 \<le> v \<or> 2 ^ 1024 \<le> w365 then Infinity else Days w365)"
    by blast
  show "\<exists>v. rounds_to (decimal ds) v
            \<and> parseDays (ds @ ''d'') = (if 2 ^ 1024 \<le> v then Infinity else Days v)
            \<and> (\<exists>w. rounds_to (v * 30) w
                  \<and> parseDays (ds @ ''m'')
                      = (if 2 ^ 1024 \<le> v \<or> 2 ^ 1024 \<le> w then Infinity else Days w))
            \<and> (\<exists>w. rounds_to (v * 365) w
                  \<and> parseDays (ds @ ''y'')
                      = (if 2 ^ 1024 \<le> v \<or> 2 ^ 1024 \<le> w then Infinity else Days w))"
    unfolding d m y using v w30 w365 by blast
  { assume "decimal ds \<le> 2 ^ 53"
    then show "parseDays (ds @ ''d'') = Days (decimal ds)"
      unfolding d by (rule to_double_exact) }
  { assume "decimal ds * 30 \<le> 2 ^ 53"
    then show "parseDays (ds @ ''m'') = Days (decimal ds * 30)"
      unfolding m by (rule times_double_exact) simp }
  { assume "decimal ds * 365 \<le> 2 ^ 53"
    then show "parseDays (ds @ ''y'') = Days (decimal ds * 365)"
      unfolding y by (rule times_double_exact) simp }
  { assume big: "2 ^ 1024 \<le> decimal ds"
    show "parseDays (ds @ ''d'') = Infinity"
      unfolding d using big by (rule to_double_large)
    show "parseDays (ds @ ''m'') = Infinity"
      unfolding m using big by (rule times_double_large)
    show "parseDays (ds @ ''y'') = Infinity"
      unfolding y using big by (rule times_double_large) }
qed

lemma rounded_example: "to_double 9007199254740993 = Days 9007199254740992"
proof -
  have "bit_length 9007199254740993 = Suc 53"
    by (rule bit_length_eq) simp_all
  then show ?thesis
    by (simp add: to_double_def Let_def)
qed

lemma digits_example:
  "list_all is_digit ''9007199254740993''" "decimal ''9007199254740993'' = 9007199254740993"
  by (simp_all add: is_digit_def digit_number_def)

text \<open>
  C9 as stated fails at \<open>"9007199254740993d"\<close>: the digits denote \<open>2^53 + 1\<close>, which no
  double holds, and \<open>parseDays\<close> returns \<open>2^53\<close>.
\<close>

theorem parseDays_counterexample:
  "parseDays ''9007199254740993d'' = Days 9007199254740992
   \<and> decimal ''9007199254740993'' = 9007199254740993"
  using parseDays_digits(1) [of "''9007199254740993''"] digits_example rounded_example
  by simp

lemma decimal_nines: "decimal (replicate k (CHR ''9'')) + 1 = 10 ^ k"
  by (induction k) (simp_all add: digit_number_def)

lemma nines_example:
  "list_all is_digit (replicate 309 (CHR ''9''))"
  "2 ^ 1024 \<le> decimal (replicate 309 (CHR ''9''))"
proof -
  show "list_all is_digit (replicate 309 (CHR ''9''))"
    by (simp add: list_all_iff is_digit_def)
  have "(2::nat) ^ 1024 + 1 \<le> 10 ^ 309" by simp
  then show "2 ^ 1024 \<le> decimal (replicate 309 (CHR ''9''))"
    using decimal_nines [of 309] by linarith
qed

lemma rounds_example: "rounds_to 9007199254740993 9007199254740992"
proof -
  have "(1 = 0 \<and> (9007199254740993::nat) < 2 ^ 53
           \<or> 2 ^ (1 + 52) \<le> (9007199254740993::nat) \<and> (9007199254740993::nat) < 2 ^ (1 + 53))
        \<and> (9007199254740992::nat) = 4503599627370496 * 2 ^ 1
        \<and> (2 * \<bar>int 9007199254740992 - int 9007199254740993\<bar> < 2 ^ 1
             \<or> 2 * \<bar>int 9007199254740992 - int 9007199254740993\<bar> = 2 ^ 1 \<and> even (4503599627370496::nat))"
    by simp
  then show ?thesis unfolding rounds_to_def by blast
qed

theorem parseDays_spec_witness:
  "parseDays ''7d'' = Days 7 \<and> parseDays ''2m'' = Days 60 \<and> parseDays ''3y'' = Days 1095
   \<and> parseDays ''12d'' = Days 12
   \<and> parseDays ''soon'' = Days 30 \<and> parseDays ''forever'' = Infinity
   \<and> parseDays (replicate 309 (CHR ''9'') @ ''d'') = Infinity
   \<and> parseDays ''9007199254740993d'' = Days 9007199254740992"
proof -
  have rounded: "parseDays ''9007199254740993d'' = Days 9007199254740992"
  proof -
    from parseDays_spec digits_example obtain v where
      v: "rounds_to (decimal ''9007199254740993'') v"
         "parseDays (''9007199254740993'' @ ''d'') = (if 2 ^ 1024 \<le> v then Infinity else Days v)"
      by blast
    from v(1) have "rounds_to 9007199254740993 v" by (simp only: digits_example)
    then have "v = 9007199254740992" using rounds_example by (rule rounds_to_unique)
    with v(2) show ?thesis by simp
  qed
  have form: "\<not> retention_form ''soon''"
  proof
    assume "retention_form ''soon''"
    then obtain ds u where "''soon'' = ds @ [u]" "u \<in> set ''dmy''"
      unfolding retention_form_def by blast
    then have "last ''soon'' = u" by (metis last_snoc)
    with \<open>u \<in> set ''dmy''\<close> show False by auto
  qed
  have d: "parseDays (ds @ ''d'') = Days (decimal ds)"
    if "ds \<noteq> []" "list_all is_digit ds" "decimal ds \<le> 2 ^ 53" for ds
    using parseDays_spec that by blast
  have m: "parseDays (ds @ ''m'') = Days (decimal ds * 30)"
    if "ds \<noteq> []" "list_all is_digit ds" "decimal ds * 30 \<le> 2 ^ 53" for ds
    using parseDays_spec that by blast
  have y: "parseDays (ds @ ''y'') = Days (decimal ds * 365)"
    if "ds \<noteq> []" "list_all is_digit ds" "decimal ds * 365 \<le> 2 ^ 53" for ds
    using parseDays_spec that by blast
  have inf: "parseDays (ds @ ''d'') = Infinity"
    if "ds \<noteq> []" "list_all is_digit ds" "2 ^ 1024 \<le> decimal ds" for ds
    using parseDays_spec that by blast
  have "parseDays ''7d'' = Days 7"
    using d [of "''7''"] by (simp add: is_digit_def digit_number_def)
  moreover have "parseDays ''2m'' = Days 60"
    using m [of "''2''"] by (simp add: is_digit_def digit_number_def)
  moreover have "parseDays ''3y'' = Days 1095"
    using y [of "''3''"] by (simp add: is_digit_def digit_number_def)
  moreover have "parseDays ''12d'' = Days 12"
    using d [of "''12''"] by (simp add: is_digit_def digit_number_def)
  moreover have "parseDays ''soon'' = Days 30"
    using parseDays_spec form by simp
  moreover have "parseDays ''forever'' = Infinity"
    using parseDays_spec by simp
  moreover have "parseDays (replicate 309 (CHR ''9'') @ ''d'') = Infinity"
    using inf [of "replicate 309 (CHR ''9'')"] nines_example by simp
  ultimately show ?thesis using rounded by simp
qed

section \<open>Saving and reading back\<close>

lemma find_filter_neg: "find P [x \<leftarrow> xs. \<not> P x] = None"
  by (induction xs) simp_all

lemma find_filter_weaker: "(\<And>x. P x \<Longrightarrow> Q x) \<Longrightarrow> find P (filter Q xs) = find P xs"
  by (induction xs) auto

lemma find_append: "find P (xs @ ys) = (case find P xs of None \<Rightarrow> find P ys | Some x \<Rightarrow> Some x)"
  by (induction xs) simp_all

lemma table_rows_save:
  "table_rows (save now s st) = [r \<leftarrow> table_rows st. col_id r \<noteq> sid s] @ [bind_row now s]"
  by (simp add: table_rows_def save_def Let_def filter_map comp_def)

lemma col_id_bind_row: "col_id (bind_row now s) = sid s"
  by (simp add: bind_row_def)

lemma getById_save_same: "getById (sid s) (save now s st) = Some (rowToSession (bind_row now s))"
proof -
  have "find (\<lambda>r. col_id r = sid s) [r \<leftarrow> table_rows st. col_id r \<noteq> sid s] = None"
    using find_filter_neg [of "\<lambda>r. col_id r = sid s" "table_rows st"] by simp
  then show ?thesis
    by (simp add: getById_def table_rows_save find_append col_id_bind_row)
qed

lemma getById_save_other:
  assumes "i \<noteq> sid s"
  shows "getById i (save now s st) = getById i st"
proof -
  have "find (\<lambda>r. col_id r = i) [r \<leftarrow> table_rows st. col_id r \<noteq> sid s] = find (\<lambda>r. col_id r = i) (table_rows st)"
    using assms by (intro find_filter_weaker) auto
  then show ?thesis
    using assms by (simp add: getById_def table_rows_save find_append col_id_bind_row split: option.split)
qed

lemma number_or_null_idem: "number_or_null (number_or_null x) = number_or_null x"
  by (simp add: number_or_null_def split: option.split)

lemma string_or_null_idem: "string_or_null (string_or_null x) = string_or_null x"
  by (simp add: string_or_null_def split: option.split)

lemma number_or_null_if: "number_or_null x = (if x = Some 0 then None else x)"
  by (simp add: number_or_null_def split: option.split)

lemma string_or_null_if: "string_or_null x = (if x = Some [] then None else x)"
  by (simp add: string_or_null_def split: option.split)

lemma saved_row: "[x \<leftarrow> table_rows (save now s st). col_id x = sid s] = [bind_row now s]"
  by (simp add: table_rows_save col_id_bind_row filter_empty_conv)

text \<open>
  C10. \<open>save\<close> binds an \<open>archivedAt\<close> or \<open>syncedAt\<close> at the Unix epoch and an empty
  \<open>logFileArchived\<close> as \<open>NULL\<close>: the one row that the table then holds for the session has
  no value in that column, and \<open>getById\<close> returns \<open>undefined\<close> for the property. Every other
  value of the three optional properties, absent or present, is stored as it is and comes
  back as it was saved.
\<close>

theorem save_getById_optional_fields:
  "\<exists>row r. [x \<leftarrow> table_rows (save now s st). col_id x = sid s] = [row]
     \<and> col_archived_at row = (if archivedAt s = Some 0 then None else archivedAt s)
     \<and> col_synced_at row = (if syncedAt s = Some 0 then None else syncedAt s)
     \<and> col_log_file_archived row = (if logFileArchived s = Some [] then None else logFileArchived s)
     \<and> getById (sid s) (save now s st) = Some r
     \<and> archivedAt r = (if archivedAt s = Some 0 then None else archivedAt s)
     \<and> syncedAt r = (if syncedAt s = Some 0 then None else syncedAt s)
     \<and> logFileArchived r = (if logFileArchived s = Some [] then None else logFileArchived s)"
proof -
  let ?row = "bind_row now s"
  let ?r = "rowToSession ?row"
  have "[x \<leftarrow> table_rows (save now s st). col_id x = sid s] = [?row]" by (rule saved_row)
  moreover have "col_archived_at ?row = (if archivedAt s = Some 0 then None else archivedAt s)"
    by (simp add: bind_row_def number_or_null_if)
  moreover have "col_synced_at ?row = (if syncedAt s = Some 0 then None else syncedAt s)"
    by (simp add: bind_row_def number_or_null_if)
  moreover have "col_log_file_archived ?row = (if logFileArchived s = Some [] then None else logFileArchived s)"
    by (simp add: bind_row_def string_or_null_if)
  moreover have "getById (sid s) (save now s st) = Some ?r" by (rule getById_save_same)
  moreover have "archivedAt ?r = (if archivedAt s = Some 0 then None else archivedAt s)"
    by (simp add: rowToSession_def bind_row_def number_or_null_idem number_or_null_if)
  moreover have "syncedAt ?r = (if syncedAt s = Some 0 then None else syncedAt s)"
    by (simp add: rowToSession_def bind_row_def number_or_null_idem number_or_null_if)
  moreover have "logFileArchived ?r = (if logFileArchived s = Some [] then None else logFileArchived s)"
    by (simp add: rowToSession_def bind_row_def string_or_null_idem string_or_null_if)
  ultimately show ?thesis by blast
qed

theorem save_getById_optional_fields_witness:
  "(\<exists>row r. [x \<leftarrow> table_rows (save 1736679600000 falsy_optionals (new_store ''/tmp/test.db'' False)).
                  col_id x = ''test_falsy''] = [row]
      \<and> col_archived_at row = None \<and> col_synced_at row = None \<and> col_log_file_archived row = None
      \<and> getById ''test_falsy'' (save 1736679600000 falsy_optionals (new_store ''/tmp/test.db'' False)) = Some r
      \<and> archivedAt r = None \<and> syncedAt r = None \<and> logFileArchived r = None)
   \<and> (\<exists>row r. [x \<leftarrow> table_rows (save 1736679600000 plain_optionals (new_store ''/tmp/test.db'' False)).
                  col_id x = ''test_plain''] = [row]
      \<and> col_archived_at row = Some 1736679600000 \<and> col_synced_at row = Some 1736679660000
      \<and> col_log_file_archived row = Some ''/home/user/.cc-sessions/archive/test_plain.jsonl.gz''
      \<and> getById ''test_plain'' (save 1736679600000 plain_optionals (new_store ''/tmp/test.db'' False)) = Some r
      \<and> archivedAt r = Some 1736679600000 \<and> syncedAt r = Some 1736679660000
      \<and> logFileArchived r = Some ''/home/user/.cc-sessions/archive/test_plain.jsonl.gz'')"
  using save_getById_optional_fields [where now = 1736679600000 and s = falsy_optionals
        and st = "new_store ''/tmp/test.db'' False"]
    save_getById_optional_fields [where now = 1736679600000 and s = plain_optionals
        and st = "new_store ''/tmp/test.db'' False"]
  by (simp add: falsy_optionals_def plain_optionals_def createTestSession_def)

lemma task_toJSON_fields:
  "task_id (task_toJSON t) = task_id t"
  "task_description (task_toJSON t) = task_description t"
  "status (task_toJSON t) = status t"
  "createdAt (task_toJSON t) = DateString (js_date_text (createdAt t))"
  "completedAt (task_toJSON t) = map_option (\<lambda>d. DateString (js_date_text d)) (completedAt t)"
  "relatedFiles (task_toJSON t) = relatedFiles t"
  "task_notes (task_toJSON t) = task_notes t"
  by (simp_all add: task_toJSON_def)

text \<open>
  C3, as amended. \<open>save(s)\<close> followed by \<open>getById(s.id)\<close> finds a session that equals
  \<open>s\<close> in every property, with these exceptions: the dates inside the tasks come back as
  their ISO-8601 strings, an absent \<open>synced\<close> comes back as \<open>false\<close>, and an \<open>archivedAt\<close>
  or \<open>syncedAt\<close> at the Unix epoch and an empty \<open>logFileArchived\<close> come back absent.
\<close>

theorem save_getById_round_trip:
  "\<exists>r. getById (sid s) (save now s st) = Some r
     \<and> sid r = sid s \<and> claudeSessionId r = claudeSessionId s
     \<and> projectPath r = projectPath s \<and> projectName r = projectName s
     \<and> startedAt r = startedAt s \<and> endedAt r = endedAt s \<and> duration r = duration s
     \<and> summary r = summary s \<and> description r = description s
     \<and> tasksCompleted r = tasksCompleted s \<and> tasksPending r = tasksPending s
     \<and> filesCreated r = filesCreated s \<and> filesModified r = filesModified s
     \<and> filesDeleted r = filesDeleted s
     \<and> lastUserMessage r = lastUserMessage s \<and> lastAssistantMessage r = lastAssistantMessage s
     \<and> nextSteps r = nextSteps s \<and> keyDecisions r = keyDecisions s \<and> blockers r = blockers s
     \<and> tokensUsed r = tokensUsed s \<and> messagesCount r = messagesCount s
     \<and> toolCallsCount r = toolCallsCount s
     \<and> tags r = tags s \<and> archived r = archived s \<and> logFile r = logFile s
     \<and> list_all2 (\<lambda>t t'. task_id t' = task_id t \<and> task_description t' = task_description t
                       \<and> status t' = status t \<and> relatedFiles t' = relatedFiles t
                       \<and> task_notes t' = task_notes t
                       \<and> createdAt t' = DateString (js_date_text (createdAt t))
                       \<and> completedAt t' = map_option (\<lambda>d. DateString (js_date_text d)) (completedAt t))
                  (tasks s) (tasks r)
     \<and> synced r = Some (synced s = Some True)
     \<and> archivedAt r = (if archivedAt s = Some 0 then None else archivedAt s)
     \<and> syncedAt r = (if syncedAt s = Some 0 then None else syncedAt s)
     \<and> logFileArchived r = (if logFileArchived s = Some [] then None else logFileArchived s)"
proof -
  let ?r = "rowToSession (bind_row now s)"
  have get: "getById (sid s) (save now s st) = Some ?r" by (rule getById_save_same)
  have plain: "sid ?r = sid s" "claudeSessionId ?r = claudeSessionId s"
      "projectPath ?r = projectPath s" "projectName ?r = projectName s"
      "startedAt ?r = startedAt s" "endedAt ?r = endedAt s" "duration ?r = duration s"
      "summary ?r = summary s" "description ?r = description s"
      "tasksCompleted ?r = tasksCompleted s" "tasksPending ?r = tasksPending s"
      "filesCreated ?r = filesCreated s" "filesModified ?r = filesModified s"
      "filesDeleted ?r = filesDeleted s"
      "lastUserMessage ?r = lastUserMessage s" "lastAssistantMessage ?r = lastAssistantMessage s"
      "nextSteps ?r = nextSteps s" "keyDecisions ?r = keyDecisions s" "blockers ?r = blockers s"
      "tokensUsed ?r = tokensUsed s" "messagesCount ?r = messagesCount s"
      "toolCallsCount ?r = toolCallsCount s"
      "tags ?r = tags s" "archived ?r = archived s" "logFile ?r = logFile s"
    by (simp_all add: rowToSession_def bind_row_def)
  have tasks: "tasks ?r = map task_toJSON (tasks s)"
    by (simp add: rowToSession_def bind_row_def)
  have tasks2: "list_all2 (\<lambda>t t'. task_id t' = task_id t \<and> task_description t' = task_description t
                       \<and> status t' = status t \<and> relatedFiles t' = relatedFiles t
                       \<and> task_notes t' = task_notes t
                       \<and> createdAt t' = DateString (js_date_text (createdAt t))
                       \<and> completedAt t' = map_option (\<lambda>d. DateString (js_date_text d)) (completedAt t))
                  (tasks s) (tasks ?r)"
    unfolding tasks by (simp add: list_all2_map2 task_toJSON_fields list_all2_same)
  have opt: "synced ?r = Some (synced s = Some True)"
      "archivedAt ?r = (if archivedAt s = Some 0 then None else archivedAt s)"
      "syncedAt ?r = (if syncedAt s = Some 0 then None else syncedAt s)"
      "logFileArchived ?r = (if logFileArchived s = Some [] then None else logFileArchived s)"
    by (simp_all add: rowToSession_def bind_row_def number_or_null_idem number_or_null_if
          string_or_null_idem string_or_null_if)
  show ?thesis
    apply (rule exI [of _ ?r])
    apply (simp only: get plain opt simp_thms)
    apply (rule tasks2)
    done
qed

text \<open>
  C3 as stated fails for a session archived at the Unix epoch: what comes back has no
  \<open>archivedAt\<close> at all, which is another value and not another representation of the
  same instant.
\<close>

theorem round_trip_counterexample:
  "getById (sid epoch_archived) (save 1736679600000 epoch_archived (new_store ''/tmp/test.db'' False))
     = Some (epoch_archived\<lparr>archivedAt := None\<rparr>)
   \<and> epoch_archived\<lparr>archivedAt := None\<rparr> \<noteq> epoch_archived
   \<and> archived epoch_archived \<and> archivedAt epoch_archived = Some 0"
proof -
  have "rowToSession (bind_row 1736679600000 epoch_archived) = epoch_archived\<lparr>archivedAt := None\<rparr>"
    by (simp add: rowToSession_def bind_row_def epoch_archived_def createTestSession_def
          number_or_null_def string_or_null_def)
  moreover have "archivedAt (epoch_archived\<lparr>archivedAt := None\<rparr>) \<noteq> archivedAt epoch_archived"
    by (simp add: epoch_archived_def)
  then have "epoch_archived\<lparr>archivedAt := None\<rparr> \<noteq> epoch_archived" by metis
  moreover have "archived epoch_archived \<and> archivedAt epoch_archived = Some 0"
    by (simp add: epoch_archived_def)
  ultimately show ?thesis by (simp add: getById_save_same)
qed

theorem save_getById_round_trip_witness:
  "\<exists>r. getById ''test_1'' (save 1736679600000 (createTestSession ''test_1'') (new_store ''/tmp/test.db'' False)) = Some r
     \<and> summary r = ''Test session summary'' \<and> tags r = [''test'', ''typescript'']
     \<and> synced r = Some False \<and> archivedAt r = None
     \<and> map createdAt (tasks r) = [DateString (toISOString 1736676000000), DateString (toISOString 1736676000000)]"
proof -
  obtain r where r: "getById (sid (createTestSession ''test_1''))
        (save 1736679600000 (createTestSession ''test_1'') (new_store ''/tmp/test.db'' False)) = Some r"
     "summary r = summary (createTestSession ''test_1'')" "tags r = tags (createTestSession ''test_1'')"
     "synced r = Some (synced (createTestSession ''test_1'') = Some True)"
     "archivedAt r = (if archivedAt (createTestSession ''test_1'') = Some 0 then None else archivedAt (createTestSession ''test_1''))"
     "list_all2 (\<lambda>t t'. task_id t' = task_id t \<and> task_description t' = task_description t
                       \<and> status t' = status t \<and> relatedFiles t' = relatedFiles t
                       \<and> task_notes t' = task_notes t
                       \<and> createdAt t' = DateString (js_date_text (createdAt t))
                       \<and> completedAt t' = map_option (\<lambda>d. DateString (js_date_text d)) (completedAt t))
                  (tasks (createTestSession ''test_1'')) (tasks r)"
    using save_getById_round_trip [of "createTestSession ''test_1''" 1736679600000 "new_store ''/tmp/test.db'' False"]
    by blast
  from r(6) have "map createdAt (tasks r) = [DateString (toISOString 1736676000000), DateString (toISOString 1736676000000)]"
    by (auto simp: createTestSession_def list_all2_Cons1 js_date_text_def)
  with r(1-5) show ?thesis
    by (simp add: createTestSession_def)
qed

section \<open>\<open>archiveOld\<close>\<close>

lemma foldl_no_change: "(\<And>a x. x \<in> set xs \<Longrightarrow> f a x = a) \<Longrightarrow> foldl f a xs = a"
  by (induction xs arbitrary: a) simp_all

lemma table_rows_sql_update:
  "table_rows (snd (sql_update cond upd st)) = map (\<lambda>r. if cond r then upd r else r) (table_rows st)"
  by (simp add: sql_update_def table_rows_def comp_def if_distrib cong: if_cong)

lemma changes_sql_update:
  "fst (sql_update cond upd st) = length [r \<leftarrow> table_rows st. cond r]"
  by (simp add: sql_update_def table_rows_def length_filter_map comp_def)

lemma sql_update_none:
  assumes "\<And>r. r \<in> set (table_rows st) \<Longrightarrow> \<not> cond r"
  shows "sql_update cond upd st = (0, st)"
proof -
  have no: "\<not> cond (snd e)" if "e \<in> set (sessions st)" for e
    using assms that by (auto simp: table_rows_def)
  then have "[e \<leftarrow> sessions st. cond (snd e)] = []"
    by (simp add: filter_empty_conv)
  moreover have "map (\<lambda>e. if cond (snd e) then (fst e, upd (snd e)) else e) (sessions st) = sessions st"
    using no by (simp add: map_idI)
  moreover have "foldl (\<lambda>fts e. if cond (snd e) then sessions_au e (fst e, upd (snd e)) fts else fts)
                   (sessions_fts st) (sessions st) = sessions_fts st"
    using no by (intro foldl_no_change) simp
  ultimately show ?thesis by (simp add: sql_update_def)
qed

text \<open>
  C5. \<open>archiveOld(d)\<close> sets \<open>archived\<close> and stamps \<open>archived_at\<close> with the current time on
  exactly the rows that are not archived and started before the cutoff (the current time
  minus \<open>d\<close> days), and leaves every other row as it is; it returns the number of rows it
  changed; no row that was archived stops being archived; and a second call with the same
  cutoff returns 0 and leaves the database as the first call left it.
\<close>

theorem archiveOld_spec:
  "(let cutoff = t_cutoff - d * 24 * 60 * 60 * 1000;
        result = archiveOld t_cutoff t_stamp d st
    in table_rows (snd result) =
         map (\<lambda>r. if col_started_at r < cutoff \<and> \<not> col_archived r
                   then r\<lparr>col_archived := True, col_archived_at := Some t_stamp\<rparr> else r)
             (table_rows st)
       \<and> fst result = length [r \<leftarrow> table_rows st. col_started_at r < cutoff \<and> \<not> col_archived r]
       \<and> list_all2 (\<lambda>r r'. col_archived r \<longrightarrow> col_archived r')
            (table_rows st) (table_rows (snd result))
       \<and> archiveOld t_cutoff t_stamp' d (snd result) = (0, snd result))"
proof -
  define cutoff where "cutoff = t_cutoff - d * 24 * 60 * 60 * 1000"
  define due where "due = (\<lambda>r::row. col_started_at r < cutoff \<and> \<not> col_archived r)"
  define upd where "upd = (\<lambda>r::row. r\<lparr>col_archived := True, col_archived_at := Some t_stamp\<rparr>)"
  define upd' where "upd' = (\<lambda>r::row. r\<lparr>col_archived := True, col_archived_at := Some t_stamp'\<rparr>)"
  have a: "archiveOld t_cutoff t_stamp d s = sql_update due upd s"
    and a': "archiveOld t_cutoff t_stamp' d s = sql_update due upd' s" for s
    by (simp_all add: archiveOld_def due_def upd_def upd'_def cutoff_def)
  let ?st' = "snd (sql_update due upd st)"
  have rows: "table_rows ?st' = map (\<lambda>r. if due r then upd r else r) (table_rows st)"
    by (rule table_rows_sql_update)
  have count: "fst (sql_update due upd st) = length [r \<leftarrow> table_rows st. due r]"
    by (rule changes_sql_update)
  have mono: "list_all2 (\<lambda>r r'. col_archived r \<longrightarrow> col_archived r') (table_rows st) (table_rows ?st')"
    unfolding rows by (simp add: list_all2_map2 list_all2_same upd_def)
  have "\<not> due r" if "r \<in> set (table_rows ?st')" for r
    using that unfolding rows by (auto simp: due_def upd_def)
  then have again: "sql_update due upd' ?st' = (0, ?st')"
    by (rule sql_update_none)
  show ?thesis
    using rows count mono again
    by (simp add: a a' Let_def due_def upd_def cutoff_def)
qed

lemma table_rows_new_store: "table_rows (new_store p rt) = []"
  by (simp add: table_rows_def new_store_def)

lemma scenario_rows:
  "table_rows scenario_store =
     [bind_row scenario_now ((createTestSession ''old_session'')\<lparr>startedAt := scenario_now - 100 * 24 * 60 * 60 * 1000\<rparr>),
      bind_row scenario_now ((createTestSession ''new_session'')\<lparr>startedAt := scenario_now\<rparr>)]"
  by (simp add: scenario_store_def table_rows_save table_rows_new_store bind_row_def createTestSession_def)

theorem archiveOld_spec_witness:
  "fst (archiveOld scenario_now scenario_now 30 scenario_store) = 1
   \<and> map (\<lambda>r. (col_id r, col_archived r, col_archived_at r))
        (table_rows (snd (archiveOld scenario_now scenario_now 30 scenario_store)))
      = [(''old_session'', True, Some scenario_now), (''new_session'', False, None)]
   \<and> fst (archiveOld scenario_now scenario_now 30
            (snd (archiveOld scenario_now scenario_now 30 scenario_store))) = 0"
  using archiveOld_spec [where t_cutoff = scenario_now and t_stamp = scenario_now and d = 30
      and st = scenario_store and t_stamp' = scenario_now]
  by (simp add: Let_def scenario_rows)
     (simp add: bind_row_def createTestSession_def scenario_now_def number_or_null_def)

section \<open>\<open>getStats\<close>\<close>

lemma sql_min_Min: "xs \<noteq> [] \<Longrightarrow> sql_min xs = Some (Min (set xs))"
  by (cases xs) (simp_all add: sql_min_def Min.set_eq_fold [symmetric])

lemma sql_max_Max: "xs \<noteq> [] \<Longrightarrow> sql_max xs = Some (Max (set xs))"
  by (cases xs) (simp_all add: sql_max_def Max.set_eq_fold [symmetric])

lemma getStats_counts:
  "totalSessions (getStats e st) = length (table_rows st)"
  "activeSessions (getStats e st) = length [r \<leftarrow> table_rows st. \<not> col_archived r]"
  "archivedSessions (getStats e st) = length [r \<leftarrow> table_rows st. col_archived r]"
  "activeSessions (getStats e st) + archivedSessions (getStats e st) = totalSessions (getStats e st)"
  by (simp_all add: getStats_def Let_def sum_length_filter_compl add.commute)

lemma getStats_empty:
  "table_rows st = [] \<Longrightarrow> oldestSession (getStats e st) = None \<and> newestSession (getStats e st) = None"
  by (simp add: getStats_def Let_def sql_min_def sql_max_def number_or_null_def)

lemma getStats_oldest_newest:
  assumes "table_rows st \<noteq> []"
  shows "oldestSession (getStats e st)
           = (let t = Min (set (map col_started_at (table_rows st))) in if t = 0 then None else Some t)"
    and "newestSession (getStats e st)
           = (let t = Max (set (map col_started_at (table_rows st))) in if t = 0 then None else Some t)"
  using assms by (simp_all add: getStats_def Let_def sql_min_Min sql_max_Max number_or_null_def)

lemma getStats_size:
  "storageUsedBytes (getStats e st) = statSync_size (homedir e @ ''/.cc-sessions/index.db'') e"
  by (simp add: getStats_def Let_def DB_PATH_def DB_DIR_def existsSync_def statSync_size_def
        split: option.split)

lemma archived_scenario_rows:
  "map (\<lambda>r. (col_id r, col_archived r, col_archived_at r))
        (table_rows (snd (archiveOld scenario_now scenario_now 30 scenario_store)))
      = [(''old_session'', True, Some scenario_now), (''new_session'', False, None)]"
  by (simp add: archiveOld_def table_rows_sql_update scenario_rows)
     (simp add: bind_row_def createTestSession_def scenario_now_def number_or_null_def)

lemma getStats_scenario:
  "activeSessions (getStats e (snd (archiveOld scenario_now scenario_now 30 scenario_store))) = 1
   \<and> archivedSessions (getStats e (snd (archiveOld scenario_now scenario_now 30 scenario_store))) = 1
   \<and> totalSessions (getStats e (snd (archiveOld scenario_now scenario_now 30 scenario_store))) = 2"
proof -
  let ?rows = "table_rows (snd (archiveOld scenario_now scenario_now 30 scenario_store))"
  have "map col_archived ?rows = map (fst \<circ> snd) (map (\<lambda>r. (col_id r, col_archived r, col_archived_at r)) ?rows)"
    by simp
  then have flags: "map col_archived ?rows = [True, False]"
    unfolding archived_scenario_rows by simp
  then obtain a b where ab: "?rows = [a, b]" "col_archived a" "\<not> col_archived b"
    by auto
  show ?thesis
    by (simp add: getStats_counts(1-3) ab)
qed

text \<open>
  C8 at a store that was opened on a path of its own, as the test suite does: the file the
  store was constructed with has 4096 bytes, and \<open>getStats\<close> reports 0, because it
  measures the file at the default path \<open>DB_PATH\<close> whatever path the constructor was given.
  The lemmas above cover the rest of the claim: the three counts, the oldest and newest
  \<open>startedAt\<close> (absent for an empty table, and also when the value is the epoch), and the
  scenario of two records.
\<close>

theorem getStats_size_other_path:
  "dbPath scenario_store = ''/tmp/cc-sessions-store-test/test.db''
   \<and> statSync_size (dbPath scenario_store) test_env = 4096
   \<and> storageUsedBytes (getStats test_env scenario_store) = 0"
  by (simp add: getStats_size test_env_def statSync_size_def scenario_store_def save_def Let_def new_store_def)

section \<open>\<open>getRelated\<close>\<close>

lemma fold_add_if:
  "fold (\<lambda>x acc. if P x then acc + k else acc) xs (a::nat) = a + k * length [x \<leftarrow> xs. P x]"
  by (induction xs arbitrary: a) simp_all

lemma relatedScore_points: "relatedScore target s = related_points target s"
  by (simp add: relatedScore_def related_points_def Let_def fold_add_if)

lemma insort_key_map: "insort_key k (h x) (map h ys) = map h (insort_key (\<lambda>y. k (h y)) x ys)"
  by (induction ys) simp_all

lemma sort_key_map: "sort_key k (map h xs) = map h (sort_key (\<lambda>y. k (h y)) xs)"
  by (induction xs) (simp_all add: insort_key_map)

lemma js_slice0_nonneg: "0 \<le> n \<Longrightarrow> js_slice0 n xs = take (nat n) xs"
  by (simp add: js_slice0_def)

lemma getRelated_ranked:
  assumes "getById i st = Some target"
  shows "getRelated i limit st =
           js_slice0 limit (sort_key (\<lambda>s. - int (related_points target s))
              [s \<leftarrow> getAll False st. sid s \<noteq> i \<and> 0 < related_points target s])"
proof -
  let ?cands = "[s \<leftarrow> getAll False st. sid s \<noteq> i]"
  let ?pair = "\<lambda>s. (s, relatedScore target s)"
  have "[p \<leftarrow> map ?pair ?cands. snd p > 0] = map ?pair [s \<leftarrow> ?cands. 0 < related_points target s]"
    by (simp add: filter_map comp_def relatedScore_points)
  then have "sort_key (\<lambda>p. - int (snd p)) [p \<leftarrow> map ?pair ?cands. snd p > 0]
               = map ?pair (sort_key (\<lambda>s. - int (related_points target s)) [s \<leftarrow> ?cands. 0 < related_points target s])"
    by (simp add: sort_key_map relatedScore_points)
  then have "map fst (js_slice0 limit (sort_key (\<lambda>p. - int (snd p)) [p \<leftarrow> map ?pair ?cands. snd p > 0]))
               = js_slice0 limit (sort_key (\<lambda>s. - int (related_points target s)) [s \<leftarrow> ?cands. 0 < related_points target s])"
    by (simp add: js_slice0_def take_map [symmetric] comp_def)
  then show ?thesis
    using assms by (simp add: getRelated_def Let_def)
qed

text \<open>
  A negative \<open>limit\<close> is not a count: \<open>slice(0, limit)\<close> then drops that many sessions from
  the end of the ranking.
\<close>

lemma getRelated_negative_limit:
  assumes "getById i st = Some target" "limit < 0"
  shows "getRelated i limit st =
           (let ranked = sort_key (\<lambda>s. - int (related_points target s))
                           [s \<leftarrow> getAll False st. sid s \<noteq> i \<and> 0 < related_points target s]
            in take (length ranked - nat (- limit)) ranked)"
proof -
  have "nat (int n + limit) = n - nat (- limit)" for n
    using assms(2) by linarith
  then show ?thesis
    using assms by (simp add: getRelated_ranked js_slice0_def Let_def)
qed

text \<open>
  C7, as amended. For an unknown id \<open>getRelated\<close> returns the empty list. For a stored id
  there is a ranking of the other non-archived sessions that is ordered by descending
  score, contains exactly the sessions whose score is positive, and keeps sessions of
  equal score in the order of \<open>getAll(false)\<close>; the score is \<open>related_points\<close>: 5 for the
  same project, 3 per shared file path, 2 per shared tag. For a limit that is not negative
  the result is the first \<open>limit\<close> sessions of the ranking; for a negative limit it is the
  ranking without its last \<open>-limit\<close> sessions.
\<close>

theorem getRelated_spec:
  "(getById i st = None \<longrightarrow> getRelated i limit st = [])
   \<and> (\<forall>target. getById i st = Some target \<longrightarrow>
        (\<exists>ranked. getRelated i limit st
                     = (if 0 \<le> limit then take (nat limit) ranked
                        else take (length ranked - nat (- limit)) ranked)
           \<and> sorted_wrt (\<lambda>a b. related_points target a \<ge> related_points target b) ranked
           \<and> (\<forall>k. [s \<leftarrow> ranked. related_points target s = k]
                   = (if k > 0 then [s \<leftarrow> getAll False st. sid s \<noteq> i \<and> related_points target s = k]
                      else []))))"
proof (intro conjI allI impI)
  assume "getById i st = None"
  then show "getRelated i limit st = []" by (simp add: getRelated_def)
next
  fix target assume a: "getById i st = Some target"
  define key where "key = (\<lambda>s. - int (related_points target s))"
  define cands where "cands = [s \<leftarrow> getAll False st. sid s \<noteq> i \<and> 0 < related_points target s]"
  define ranked where "ranked = sort_key key cands"
  have res: "getRelated i limit st
               = (if 0 \<le> limit then take (nat limit) ranked
                  else take (length ranked - nat (- limit)) ranked)"
  proof (cases "0 \<le> limit")
    case True
    then show ?thesis
      using a getRelated_ranked [of i st target limit]
      by (simp add: js_slice0_nonneg ranked_def key_def cands_def)
  next
    case False
    then show ?thesis
      using a getRelated_negative_limit [of i st target limit]
      by (simp add: Let_def ranked_def key_def cands_def)
  qed
  have "sorted (map key ranked)" unfolding ranked_def by (rule sorted_sort_key)
  then have srt: "sorted_wrt (\<lambda>a b. related_points target a \<ge> related_points target b) ranked"
    by (simp add: sorted_map key_def)
  have stable: "[s \<leftarrow> ranked. related_points target s = k]
                   = (if k > 0 then [s \<leftarrow> getAll False st. sid s \<noteq> i \<and> related_points target s = k]
                      else [])" for k
  proof -
    have "[s \<leftarrow> ranked. related_points target s = k] = [s \<leftarrow> ranked. key s = - int k]"
      by (simp add: key_def)
    also have "\<dots> = [s \<leftarrow> cands. key s = - int k]"
      unfolding ranked_def by (rule sort_key_stable)
    also have "\<dots> = [s \<leftarrow> getAll False st. sid s \<noteq> i \<and> 0 < related_points target s \<and> related_points target s = k]"
      by (simp add: cands_def key_def conj_ac)
    also have "\<dots> = (if k > 0 then [s \<leftarrow> getAll False st. sid s \<noteq> i \<and> related_points target s = k] else [])"
      by (auto intro: filter_cong simp: filter_empty_conv)
    finally show ?thesis .
  qed
  show "\<exists>ranked. getRelated i limit st
                     = (if 0 \<le> limit then take (nat limit) ranked
                        else take (length ranked - nat (- limit)) ranked)
           \<and> sorted_wrt (\<lambda>a b. related_points target a \<ge> related_points target b) ranked
           \<and> (\<forall>k. [s \<leftarrow> ranked. related_points target s = k]
                   = (if k > 0 then [s \<leftarrow> getAll False st. sid s \<noteq> i \<and> related_points target s = k]
                      else []))"
    using res srt stable by blast
qed


lemma sid_related: "sid (related_session i p t fs ts ar) = i"
  by (simp add: related_session_def createTestSession_def)

lemma related_rows:
  "table_rows related_store =
     [bind_row 2 (related_session ''a'' ''/p1'' 100 [''x.ts'', ''y.ts''] [''auth''] False),
      bind_row 3 (related_session ''b'' ''/p1'' 200 [] [] False),
      bind_row 4 (related_session ''c'' ''/p2'' 300 [''y.ts''] [''auth''] False),
      bind_row 5 (related_session ''d'' ''/p1'' 400 [''x.ts'', ''y.ts''] [''auth''] True),
      bind_row 6 (related_session ''e'' ''/p3'' 500 [''z.ts''] [''docs''] False)]"
  by (simp add: related_store_def table_rows_save table_rows_new_store col_id_bind_row sid_related)

lemma related_row_cols:
  "col_id (bind_row now (related_session i p t fs ts ar)) = i"
  "col_started_at (bind_row now (related_session i p t fs ts ar)) = t"
  "col_archived (bind_row now (related_session i p t fs ts ar)) = ar"
  by (simp_all add: bind_row_def related_session_def createTestSession_def)

lemma related_back:
  "sid (rowToSession (bind_row now (related_session i p t fs ts ar))) = i"
  "projectPath (rowToSession (bind_row now (related_session i p t fs ts ar))) = p"
  "filesCreated (rowToSession (bind_row now (related_session i p t fs ts ar))) = fs"
  "filesModified (rowToSession (bind_row now (related_session i p t fs ts ar))) = []"
  "tags (rowToSession (bind_row now (related_session i p t fs ts ar))) = ts"
  by (simp_all add: rowToSession_def bind_row_def related_session_def createTestSession_def)

lemma related_target:
  "getById ''a'' related_store
     = Some (rowToSession (bind_row 2 (related_session ''a'' ''/p1'' 100 [''x.ts'', ''y.ts''] [''auth''] False)))"
  by (simp add: getById_def related_rows related_row_cols)

lemma related_all:
  "getAll False related_store =
     map rowToSession
       [bind_row 6 (related_session ''e'' ''/p3'' 500 [''z.ts''] [''docs''] False),
        bind_row 4 (related_session ''c'' ''/p2'' 300 [''y.ts''] [''auth''] False),
        bind_row 3 (related_session ''b'' ''/p1'' 200 [] [] False),
        bind_row 2 (related_session ''a'' ''/p1'' 100 [''x.ts'', ''y.ts''] [''auth''] False)]"
  by (simp add: getAll_def related_rows related_row_cols order_by_started_at_desc_def)

lemma related_eval:
  "map sid (getRelated ''a'' 5 related_store) = [''c'', ''b'']"
  "map sid (getRelated ''a'' (- 1) related_store) = [''c'']"
  by (simp_all add: getRelated_ranked [OF related_target] related_all related_back
        related_points_def js_slice0_def)

theorem getRelated_spec_witness:
  "getById ''a'' related_store \<noteq> None
   \<and> (\<exists>ranked. getRelated ''a'' 5 related_store = take 5 ranked \<and> map sid ranked = [''c'', ''b''])
   \<and> (\<exists>ranked. getRelated ''a'' (- 1) related_store = take (length ranked - 1) ranked)
   \<and> map sid (getRelated ''a'' (- 1) related_store) = [''c'']
   \<and> getById ''nobody'' related_store = None \<and> getRelated ''nobody'' 5 related_store = []"
proof -
  have none: "getById ''nobody'' related_store = None"
    by (simp add: getById_def related_rows related_row_cols)
  from getRelated_spec [of "''nobody''" related_store 5] none
  have unknown: "getRelated ''nobody'' 5 related_store = []" by blast
  from getRelated_spec [of "''a''" related_store 5] related_target
  obtain ranked where r: "getRelated ''a'' 5 related_store = take (nat 5) ranked"
    by auto
  with related_eval(1) have "map sid (take 5 ranked) = [''c'', ''b'']" by simp
  then have "getRelated ''a'' 5 related_store = take 5 (take 5 ranked) \<and> map sid (take 5 ranked) = [''c'', ''b'']"
    using r by simp
  then have first: "\<exists>ranked. getRelated ''a'' 5 related_store = take 5 ranked \<and> map sid ranked = [''c'', ''b'']"
    by (intro exI [of _ "take 5 ranked"])
  from getRelated_spec [of "''a''" related_store "- 1"] related_target
  obtain ranked' where "getRelated ''a'' (- 1) related_store = take (length ranked' - nat (- (- 1))) ranked'"
    by auto
  then have last: "\<exists>ranked. getRelated ''a'' (- 1) related_store = take (length ranked - 1) ranked"
    by auto
  from none unknown related_target first last related_eval(2) show ?thesis by simp
qed

text \<open>
  C7 as stated fails at the limit \<open>-1\<close>: the ranking for session \<open>a\<close> is \<open>c\<close>, \<open>b\<close>; cut
  to \<open>-1\<close> sessions it would be empty, and \<open>getRelated\<close> returns \<open>c\<close>.
\<close>

theorem getRelated_counterexample:
  "getById ''a'' related_store \<noteq> None
   \<and> map sid (getRelated ''a'' 5 related_store) = [''c'', ''b'']
   \<and> map sid (getRelated ''a'' (- 1) related_store) = [''c'']
   \<and> take (nat (- 1)) (getRelated ''a'' 5 related_store) = []"
  using related_target related_eval by simp

section \<open>\<open>search\<close>\<close>

lemma string_body_unterminated: "CHR 0x22 \<notin> set xs \<Longrightarrow> fts5_string_body xs = None"
  by (induction xs) auto

lemma string_body_terminated:
  "CHR 0x22 \<notin> set xs \<Longrightarrow> fts5_string_body (xs @ CHR 0x22 # ys) = Some xs"
  by (induction xs) auto

lemma cstring_Nil: "cstring [] = []"
  by (simp add: cstring_def)

lemma cstring_Cons: "cstring (c # s) = (if c = CHR 0x00 then [] else c # cstring s)"
  by (simp add: cstring_def)

lemma cstring_no_nul: "CHR 0x00 \<notin> set s \<Longrightarrow> cstring s = s"
  by (induction s) (auto simp: cstring_Cons cstring_Nil)

lemma cstring_nul: "CHR 0x00 \<in> set s \<Longrightarrow> cstring (s @ t) = cstring s"
  by (induction s) (auto simp: cstring_Cons cstring_Nil)

lemma set_cstring: "set (cstring s) \<subseteq> set s"
  by (induction s) (auto simp: cstring_Cons cstring_Nil)

lemma fts5_parse_quoted:
  assumes "CHR 0x22 \<notin> set esc"
  shows "fts5_parse ([CHR 0x22] @ esc @ [CHR 0x22] @ [CHR 0x2A])
           = (if CHR 0x00 \<in> set esc then None else Some esc)"
proof (cases "CHR 0x00 \<in> set esc")
  case True
  from assms set_cstring have "CHR 0x22 \<notin> set (cstring esc)" by blast
  then have "fts5_string_body (cstring esc) = None" by (rule string_body_unterminated)
  moreover have "cstring (esc @ [CHR 0x22, CHR 0x2A]) = cstring esc"
    using True by (rule cstring_nul)
  ultimately show ?thesis using True by (simp add: fts5_parse_def cstring_Cons)
next
  case False
  then have "cstring (esc @ [CHR 0x22, CHR 0x2A]) = esc @ [CHR 0x22, CHR 0x2A]"
    by (intro cstring_no_nul) simp
  with False assms show ?thesis
    by (simp add: fts5_parse_def cstring_Cons string_body_terminated)
qed

lemma fts_stmt_rows: "fts_stmt_all arg limit st = Inr rows \<Longrightarrow> rows = []"
  by (auto simp: fts_stmt_all_def split: if_splits option.splits)

lemma search_cases:
  "search q limit st =
     (if isl (fts_stmt_all ([CHR 0x22] @ [c \<leftarrow> q. c \<noteq> CHR 0x27 \<and> c \<noteq> CHR 0x22] @ [CHR 0x22] @ ''*'') limit st)
      then simplSearch q limit st else [])"
proof (cases "fts_stmt_all ([CHR 0x22] @ [c \<leftarrow> q. c \<noteq> CHR 0x27 \<and> c \<noteq> CHR 0x22] @ [CHR 0x22] @ ''*'') limit st")
  case (Inl e)
  then show ?thesis by (simp add: search_def)
next
  case (Inr rows)
  then have "rows = []" by (rule fts_stmt_rows)
  with Inr show ?thesis by (simp add: search_def)
qed



lemma session_simplSearch:
  "map session (simplSearch q limit st) =
       map rowToSession
         (sql_limit limit
            (order_by_started_at_desc
               [r \<leftarrow> table_rows st.
                  sql_like (col_summary r) (''%'' @ q @ ''%'')
                  \<or> sql_like (col_description r) (''%'' @ q @ ''%'')
                  \<or> sql_like (col_last_user_message r) (''%'' @ q @ ''%'')]))"
  by (simp add: simplSearch_def Let_def comp_def)












section \<open>The full-text index\<close>

lemma fts5_postings_iff:
  "(r, t, c, i) \<in> set (fts5_postings rowid vals) \<longleftrightarrow>
     r = rowid \<and> c < length vals \<and> i < length (tokenize (vals ! c)) \<and> t = tokenize (vals ! c) ! i"
proof -
  have "(r, t, c, i) \<in> set (fts5_postings rowid vals) \<longleftrightarrow>
          (\<exists>v. (c, v) \<in> set (enumerate 0 vals) \<and> r = rowid \<and> (i, t) \<in> set (enumerate 0 (tokenize v)))"
    by (force simp: fts5_postings_def)
  then show ?thesis
    by (auto simp: in_set_enumerate_eq)
qed

lemma posting_rowid: "p \<in> set (fts5_postings r vals) \<Longrightarrow> fst p = r"
  by (cases p) (simp add: fts5_postings_iff)

lemma posting_token:
  "p \<in> set (fts5_postings r vals) \<Longrightarrow> fst (snd p) \<in> set (concat (map tokenize vals))"
proof (cases p)
  case (fields r' t c i)
  assume "p \<in> set (fts5_postings r vals)"
  with fields have "c < length vals" and "i < length (tokenize (vals ! c))" and "t = tokenize (vals ! c) ! i"
    by (simp_all add: fts5_postings_iff)
  then have "t \<in> set (tokenize (vals ! c))" and "vals ! c \<in> set vals"
    by simp_all
  with fields show ?thesis by auto
qed

lemma fts5_postings_tokens:
  "fts5_postings r vals =
     concat (map (\<lambda>(c, ts). map (\<lambda>(i, t). (r, t, c, i)) (enumerate 0 ts))
                 (enumerate 0 (map tokenize vals)))"
proof -
  have "map (\<lambda>(c, ts). map (\<lambda>(i, t). (r, t, c, i)) (enumerate 0 ts)) (enumerate n (map tokenize vals))
          = map (\<lambda>(c, v). map (\<lambda>(i, t). (r, t, c, i)) (enumerate 0 (tokenize v))) (enumerate n vals)" for n
    by (induction vals arbitrary: n) simp_all
  then show ?thesis by (simp add: fts5_postings_def)
qed

lemma fts5_delete_Nil: "fts5_delete r vals [] = []"
  by (simp add: fts5_delete_def)

lemma fts5_delete_append:
  "fts5_delete r vals (a @ b) = fts5_delete r vals a @ fts5_delete r vals b"
  by (simp add: fts5_delete_def)

lemma fts5_delete_other: "\<forall>p \<in> set fts. fst p \<noteq> r \<Longrightarrow> fts5_delete r vals fts = fts"
  by (simp add: fts5_delete_def)

lemma fts5_delete_postings: "fts5_delete r vals (fts5_postings r vals) = []"
  using posting_rowid [of _ r vals] posting_token [of _ r vals]
  by (auto simp: fts5_delete_def filter_empty_conv)

lemma fts5_delete_postings_other:
  "r \<noteq> r' \<Longrightarrow> fts5_delete r vals (fts5_postings r' vals') = fts5_postings r' vals'"
  using posting_rowid [of _ r' vals'] by (intro fts5_delete_other) auto

lemma fts5_delete_subset: "set (fts5_delete r vals fts) \<subseteq> set fts"
  by (auto simp: fts5_delete_def)

lemma phrase_at_last:
  "phrase_at fts r c i [w] \<longleftrightarrow> (\<exists>t. (r, t, c, i) \<in> set fts \<and> starts_with t w)"
  by (auto simp: list_ex_iff)

lemma phrase_at_rowid:
  "phrase_at fts r c i qs = phrase_at [p \<leftarrow> fts. fst p = r] r c i qs"
proof (induction fts r c i qs rule: phrase_at.induct)
  case (1 fts rowid col off)
  show ?case by simp
next
  case (2 fts rowid col off q)
  show ?case unfolding phrase_at_last by auto
next
  case (3 fts rowid col off q v va)
  then show ?case by auto
qed

lemma fts5_match_iff:
  "fts5_match q fts \<longleftrightarrow>
     tokenize q \<noteq> [] \<and> (\<exists>r t c i. (r, t, c, i) \<in> set fts \<and> phrase_at fts r c i (tokenize q))"
  by (auto simp: fts5_match_def Let_def list_ex_iff)

lemma starts_with_refl: "starts_with t t"
  by (induction t) simp_all

lemma fts5_match_token:
  assumes "tokenize q = [w]" and "(r, t, c, i) \<in> set fts" and "starts_with t w"
  shows "fts5_match q fts"
proof -
  from assms(2,3) have "phrase_at fts r c i [w]"
    unfolding phrase_at_last by blast
  with assms(1,2) show ?thesis
    unfolding fts5_match_iff by auto
qed

lemma fts5_match_append:
  assumes "fst ` set a \<inter> fst ` set b = {}"
  shows "fts5_match q (a @ b) \<longleftrightarrow> fts5_match q a \<or> fts5_match q b"
proof -
  have a: "[p \<leftarrow> a @ b. fst p = r] = [p \<leftarrow> a. fst p = r]" if "(r, t, c, i) \<in> set a" for r t c i
  proof -
    from that assms have "\<forall>p \<in> set b. fst p \<noteq> r" by force
    then show ?thesis by (simp add: filter_empty_conv)
  qed
  have b: "[p \<leftarrow> a @ b. fst p = r] = [p \<leftarrow> b. fst p = r]" if "(r, t, c, i) \<in> set b" for r t c i
  proof -
    from that assms have "\<forall>p \<in> set a. fst p \<noteq> r" by force
    then show ?thesis by (simp add: filter_empty_conv)
  qed
  have pa: "phrase_at (a @ b) r c i qs = phrase_at a r c i qs" if "(r, t, c, i) \<in> set a" for r t c i qs
    using a [OF that] phrase_at_rowid [of "a @ b" r c i qs] phrase_at_rowid [of a r c i qs] by simp
  have pb: "phrase_at (a @ b) r c i qs = phrase_at b r c i qs" if "(r, t, c, i) \<in> set b" for r t c i qs
    using b [OF that] phrase_at_rowid [of "a @ b" r c i qs] phrase_at_rowid [of b r c i qs] by simp
  show ?thesis
    unfolding fts5_match_iff using pa pb by (auto simp: ex_disj_distrib) blast+
qed

lemma phrase_at_postings:
  "phrase_at (fts5_postings r vals) r c i qs = phrase_at (fts5_postings r' vals) r' c i qs"
proof (induction qs arbitrary: i)
  case Nil
  show ?case by simp
next
  case (Cons q qs)
  show ?case
  proof (cases qs)
    case Nil
    then show ?thesis
      by (simp del: phrase_at.simps(2) add: phrase_at_last fts5_postings_iff)
  next
    case (Cons q' qs')
    with Cons.IH [of "Suc i"] show ?thesis by (simp add: fts5_postings_iff)
  qed
qed

lemma fts5_match_postings:
  "fts5_match q (fts5_postings r vals) = fts5_match q (fts5_postings r' vals)"
proof -
  have "(\<exists>k t c i. (k, t, c, i) \<in> set (fts5_postings r vals) \<and> phrase_at (fts5_postings r vals) k c i qs)
          = (\<exists>t c i. (r, t, c, i) \<in> set (fts5_postings r vals) \<and> phrase_at (fts5_postings r vals) r c i qs)"
    for r qs
    by (auto simp: fts5_postings_iff)
  note one = this
  have "(\<exists>t c i. (r, t, c, i) \<in> set (fts5_postings r vals) \<and> phrase_at (fts5_postings r vals) r c i qs)
          = (\<exists>t c i. (r', t, c, i) \<in> set (fts5_postings r' vals) \<and> phrase_at (fts5_postings r' vals) r' c i qs)"
    for qs
    using phrase_at_postings [of r vals _ _ qs r'] by (simp add: fts5_postings_iff)
  with one [of r] one [of r'] show ?thesis
    unfolding fts5_match_iff by simp
qed

text \<open>
  The tokens of the text of a task follow the order in which the object holds its
  properties.
\<close>

lemma task_tokens:
  "tokenize (json_task
     \<lparr>task_keys = [StatusKey, IdKey, DescriptionKey, CreatedAtKey],
      task_id = ''7'', task_description = ''Fix login'', status = pending,
      createdAt = DateString ''2025-01-12'', completedAt = None, relatedFiles = None,
      task_notes = Some ''later''\<rparr>)
   = [''status'', ''pending'', ''id'', ''7'', ''description'', ''fix'', ''login'',
      ''createdat'', ''2025'', ''01'', ''12'', ''notes'', ''later'']"
  by (simp add: json_task_def property_order_def interface_keys_def task_member_def
        List.map_filter_simps json_member_def json_string_def json_escape_def status_text_def
        js_date_text_def tokenize_def is_token_char_def ascii_lower_def)

lemma missing_columns: "missing_content_columns = [''tasks_text'', ''files_text'', ''tags_text'']"
  by (simp add: missing_content_columns_def sessions_fts_columns_def sessions_columns_def)

lemma typescript_token:
  "tokenize ''typescript'' = [''typescript'']"
  "tokenize (json_strings [''test'', ''typescript'']) = [''test'', ''typescript'']"
  by (simp_all add: tokenize_def json_strings_def json_array_def json_string_def json_escape_def
        is_token_char_def ascii_lower_def)

lemma typescript_posting:
  "(rowid, ''typescript'', 7, 1) \<in> set (fts5_postings rowid (fts_values (bind_row now (createTestSession i))))"
proof -
  have "fts_values (bind_row now (createTestSession i)) ! 7 = json_strings [''test'', ''typescript'']"
    and "length (fts_values (bind_row now (createTestSession i))) = 8"
    by (simp_all add: fts_values_def bind_row_def createTestSession_def)
  then show ?thesis
    by (simp add: fts5_postings_iff typescript_token)
qed

lemma typescript_not_like:
  "\<not> sql_like ''Test session summary'' ''%typescript%''"
  "\<not> sql_like ''Test session description'' ''%typescript%''"
  "\<not> sql_like ''Last user message'' ''%typescript%''"
  by (simp_all add: sql_like_def cstring_Cons cstring_Nil ascii_lower_def)

lemma test_text_columns:
  "col_summary (bind_row now (createTestSession i)) = ''Test session summary''"
  "col_description (bind_row now (createTestSession i)) = ''Test session description''"
  "col_last_user_message (bind_row now (createTestSession i)) = ''Last user message''"
  by (simp_all add: bind_row_def createTestSession_def)

lemma saved_fresh:
  "table_rows (save now s (new_store p rt)) = [bind_row now s]"
  "sessions_fts (save now s (new_store p rt)) = fts5_postings 1 (fts_values (bind_row now s))"
  by (simp_all add: table_rows_def save_def new_store_def Let_def sessions_ai_def new_rowid_def
        fts5_insert_def fts5_delete_def)

text \<open>
  C1 at the session of the test suite, saved into a new database: \<open>typescript\<close> is one of
  its tags and a token of the serialised tags that the insert trigger indexed, yet
  \<open>search("typescript")\<close> returns nothing. The full-text statement finds the token and
  then fails on reading the row through the column names of \<open>sessions_fts\<close>; the fallback
  looks at the summary, the description and the last user message only. The setting of
  recursive triggers makes no difference.
\<close>

theorem search_misses_tag:
  "''typescript'' \<in> set (tags (createTestSession ''test_1''))
   \<and> ''typescript'' \<in> set (tokenize (json_strings (tags (createTestSession ''test_1''))))
   \<and> fts_stmt_all ([CHR 0x22] @ ''typescript'' @ [CHR 0x22] @ ''*'') 20
         (save scenario_now (createTestSession ''test_1'') (new_store ''/tmp/cc-sessions-store-test/test.db'' False))
       = Inl (SqliteError ''no such column: T.tasks_text'')
   \<and> search ''typescript'' 20
         (save scenario_now (createTestSession ''test_1'') (new_store ''/tmp/cc-sessions-store-test/test.db'' False))
       = []
   \<and> search ''typescript'' 20
         (save scenario_now (createTestSession ''test_1'') (new_store ''/tmp/cc-sessions-store-test/test.db'' True))
       = []"
proof -
  have tags: "tags (createTestSession ''test_1'') = [''test'', ''typescript'']"
    by (simp add: createTestSession_def)
  have parsed: "fts5_parse ([CHR 0x22] @ ''typescript'' @ [CHR 0x22] @ ''*'') = Some ''typescript''"
    using fts5_parse_quoted [of "''typescript''"] by simp
  have found: "fts5_match ''typescript''
                 (sessions_fts (save scenario_now (createTestSession ''test_1'') (new_store p rt)))" for p rt
    unfolding saved_fresh
    by (rule fts5_match_token [OF typescript_token(1) typescript_posting starts_with_refl])
  have raise: "fts_stmt_all ([CHR 0x22] @ ''typescript'' @ [CHR 0x22] @ ''*'') 20
         (save scenario_now (createTestSession ''test_1'') (new_store p rt))
       = Inl (SqliteError ''no such column: T.tasks_text'')" for p rt
    using parsed found [of p rt] by (simp add: fts_stmt_all_def missing_columns)
  have none: "simplSearch ''typescript'' 20 (save scenario_now (createTestSession ''test_1'') (new_store p rt)) = []" for p rt
    by (simp add: simplSearch_def saved_fresh test_text_columns typescript_not_like
          order_by_started_at_desc_def sql_limit_def)
  have "search ''typescript'' 20 (save scenario_now (createTestSession ''test_1'') (new_store p rt)) = []" for p rt
    using none [of p rt] by (simp add: search_cases)
  then show ?thesis
    using raise by (simp add: tags typescript_token)
qed

section \<open>Saving twice\<close>

lemma visible_bind_row: "visible (bind_row t s) = visible (bind_row t' s)"
  by (simp add: visible_def bind_row_def)

lemma rowToSession_visible: "rowToSession (visible r) = rowToSession r"
  by (simp add: rowToSession_def visible_def)

lemma fts_values_visible: "fts_values (visible r) = fts_values r"
  by (simp add: fts_values_def visible_def)

lemma visible_columns:
  "col_id (visible r) = col_id r"
  "col_started_at (visible r) = col_started_at r"
  "col_archived (visible r) = col_archived r"
  "col_summary (visible r) = col_summary r"
  "col_description (visible r) = col_description r"
  "col_last_user_message (visible r) = col_last_user_message r"
  by (simp_all add: visible_def)

lemma rowToSession_bind_row_now: "rowToSession (bind_row t s) = rowToSession (bind_row t' s)"
  by (metis rowToSession_visible visible_bind_row)

lemma fts_values_bind_row_now: "fts_values (bind_row t s) = fts_values (bind_row t' s)"
  by (metis fts_values_visible visible_bind_row)

lemma map_sort_filter_visible:
  assumes g: "\<And>r. g (visible r) = g r" and k: "\<And>r. k (visible r) = k r"
    and P: "\<And>r. P (visible r) = P r"
  shows "map g (sort_key k (filter P rows)) = map g (sort_key k (filter P (map visible rows)))"
proof -
  have "filter P (map visible rows) = map visible (filter P rows)"
    by (simp add: filter_map comp_def P)
  then have "sort_key k (filter P (map visible rows)) = map visible (sort_key k (filter P rows))"
    by (simp add: sort_key_map k)
  then show ?thesis by (simp add: comp_def g)
qed

lemma map_sql_limit: "map g (sql_limit n xs) = sql_limit n (map g xs)"
  by (simp add: sql_limit_def take_map)

lemma getAll_visible:
  assumes "map visible (table_rows a) = map visible (table_rows b)"
  shows "getAll inc a = getAll inc b"
proof -
  have "getAll inc st = map rowToSession (sort_key (\<lambda>r. - col_started_at r)
           (filter (\<lambda>r. inc \<or> \<not> col_archived r) (map visible (table_rows st))))" for st
    unfolding getAll_def order_by_started_at_desc_def
    by (rule map_sort_filter_visible) (simp_all add: rowToSession_visible visible_columns)
  then show ?thesis using assms by simp
qed

lemma simplSearch_visible:
  assumes "map visible (table_rows a) = map visible (table_rows b)"
  shows "simplSearch q limit a = simplSearch q limit b"
proof -
  let ?g = "\<lambda>r. \<lparr>session = rowToSession r, score = 1,
                   matches = [\<lparr>match_field = ''summary'', match_text = col_summary r,
                                match_highlight = col_summary r\<rparr>]\<rparr>"
  let ?P = "\<lambda>r. sql_like (col_summary r) (''%'' @ q @ ''%'') \<or> sql_like (col_description r) (''%'' @ q @ ''%'')
                 \<or> sql_like (col_last_user_message r) (''%'' @ q @ ''%'')"
  have "map ?g (sort_key (\<lambda>r. - col_started_at r) (filter ?P (table_rows st)))
          = map ?g (sort_key (\<lambda>r. - col_started_at r) (filter ?P (map visible (table_rows st))))" for st
    by (rule map_sort_filter_visible) (simp_all add: rowToSession_visible visible_columns)
  then have "simplSearch q limit st
          = sql_limit limit (map ?g (sort_key (\<lambda>r. - col_started_at r) (filter ?P (map visible (table_rows st)))))" for st
    by (simp add: simplSearch_def Let_def order_by_started_at_desc_def map_sql_limit)
  then show ?thesis using assms by simp
qed

lemma getStats_visible:
  assumes "map visible (table_rows a) = map visible (table_rows b)"
  shows "getStats e a = getStats e b"
proof -
  from assms have "map col_started_at (map visible (table_rows a)) = map col_started_at (map visible (table_rows b))"
    and "map col_archived (map visible (table_rows a)) = map col_archived (map visible (table_rows b))"
    by simp_all
  then have s: "map col_started_at (table_rows a) = map col_started_at (table_rows b)"
    and ar: "map col_archived (table_rows a) = map col_archived (table_rows b)"
    by (simp_all add: comp_def visible_columns)
  have len: "length [r \<leftarrow> rows. P (col_archived r)] = length (filter P (map col_archived rows))" for rows :: "row list" and P
    by (simp add: filter_map comp_def)
  have "length (table_rows a) = length (table_rows b)" using s by (metis length_map)
  then show ?thesis
    using s ar len [of "\<lambda>x. x" "table_rows a"] len [of "\<lambda>x. x" "table_rows b"]
      len [of "\<lambda>x. \<not> x" "table_rows a"] len [of "\<lambda>x. \<not> x" "table_rows b"]
    by (simp add: getStats_def Let_def)
qed

lemma sessions_save:
  "sessions (save t s st) = [e \<leftarrow> sessions st. col_id (snd e) \<noteq> sid s] @ [(new_rowid (sessions st), bind_row t s)]"
  by (simp add: save_def Let_def)

lemma sessions_fts_save:
  "sessions_fts (save t s st) =
     fts5_insert (new_rowid (sessions st)) (fts_values (bind_row t s))
       (if recursive_triggers st
        then foldl (\<lambda>fts e. sessions_ad e fts) (sessions_fts st) [e \<leftarrow> sessions st. col_id (snd e) = sid s]
        else sessions_fts st)"
  by (simp add: save_def Let_def sessions_ai_def)

lemma recursive_triggers_save: "recursive_triggers (save t s st) = recursive_triggers st"
  by (simp add: save_def Let_def)

lemma replaced_after_save:
  "[e \<leftarrow> sessions (save t s st). col_id (snd e) = sid s] = [(new_rowid (sessions st), bind_row t s)]"
  by (simp add: sessions_save col_id_bind_row filter_empty_conv)

lemma others_after_save:
  "[e \<leftarrow> sessions (save t s st). col_id (snd e) \<noteq> sid s] = [e \<leftarrow> sessions st. col_id (snd e) \<noteq> sid s]"
  by (simp add: sessions_save col_id_bind_row)

lemma rows_save_twice:
  "map visible (table_rows (save t2 s (save t1 s st))) = map visible (table_rows (save t1 s st))"
proof -
  have "table_rows (save t2 s (save t1 s st)) = [r \<leftarrow> table_rows st. col_id r \<noteq> sid s] @ [bind_row t2 s]"
    by (simp add: table_rows_save col_id_bind_row)
  then show ?thesis
    by (simp add: table_rows_save visible_bind_row [of t2 s t1])
qed

lemma foldr_max_ge: "x \<in> set xs \<Longrightarrow> x \<le> foldr max xs (b::int)"
  by (induction xs) auto

lemma foldr_max_base: "b \<le> foldr max xs (b::int)"
  by (induction xs) auto

lemma foldr_max_upper: "\<forall>x \<in> set xs. x \<le> k \<Longrightarrow> foldr max xs (k::int) = k"
  by (induction xs) auto

lemma rowid_below_new: "e \<in> set tbl \<Longrightarrow> fst e < new_rowid tbl"
  using foldr_max_ge [of "fst e" "map fst tbl" 0] by (simp add: new_rowid_def)

lemma new_rowid_positive: "0 < new_rowid tbl"
  using foldr_max_base [of 0 "map fst tbl"] by (simp add: new_rowid_def)

lemma new_rowid_snoc:
  "new_rowid ([e \<leftarrow> tbl. P e] @ [(new_rowid tbl, x)]) = new_rowid tbl + 1"
proof -
  let ?k = "new_rowid tbl"
  have "\<forall>y \<in> set (map fst [e \<leftarrow> tbl. P e]). y \<le> ?k"
    using rowid_below_new [of _ tbl] by fastforce
  then have "foldr max (map fst [e \<leftarrow> tbl. P e]) ?k = ?k"
    by (rule foldr_max_upper)
  moreover have "max ?k 0 = ?k"
    using new_rowid_positive [of tbl] by simp
  ultimately show ?thesis
    by (simp add: new_rowid_def [of "_ @ _"])
qed

lemma foldl_sessions_ad_subset:
  "set (foldl (\<lambda>fts e. sessions_ad e fts) fts es) \<subseteq> set fts"
proof (induction es arbitrary: fts)
  case Nil
  show ?case by simp
next
  case (Cons e es)
  have "set (foldl (\<lambda>fts e. sessions_ad e fts) (sessions_ad e fts) es) \<subseteq> set (sessions_ad e fts)"
    by (rule Cons.IH)
  also have "\<dots> \<subseteq> set fts"
    unfolding sessions_ad_def by (rule fts5_delete_subset)
  finally show ?case by simp
qed

lemma fts5_insert_fresh:
  assumes "\<forall>p \<in> set fts. fst p < r"
  shows "fts5_insert r vals fts = fts @ fts5_postings r vals"
    and "fts5_match q (fts5_insert r vals fts) \<longleftrightarrow> fts5_match q fts \<or> fts5_match q (fts5_postings r vals)"
proof -
  from assms have "\<forall>p \<in> set fts. fst p \<noteq> r" by fastforce
  then show eq: "fts5_insert r vals fts = fts @ fts5_postings r vals"
    by (simp add: fts5_insert_def fts5_delete_other)
  have "fst ` set fts \<inter> fst ` set (fts5_postings r vals) = {}"
    using assms posting_rowid [of _ r vals] by fastforce
  then show "fts5_match q (fts5_insert r vals fts) \<longleftrightarrow> fts5_match q fts \<or> fts5_match q (fts5_postings r vals)"
    unfolding eq by (rule fts5_match_append)
qed

lemma fts5_match_save_twice:
  assumes "\<forall>p \<in> set (sessions_fts st). fst p < new_rowid (sessions st)"
  shows "fts5_match q (sessions_fts (save t2 s (save t1 s st))) = fts5_match q (sessions_fts (save t1 s st))"
proof -
  define r where "r = new_rowid (sessions st)"
  define V where "V = fts_values (bind_row t1 s)"
  define X where "X = (if recursive_triggers st
      then foldl (\<lambda>fts e. sessions_ad e fts) (sessions_fts st) [e \<leftarrow> sessions st. col_id (snd e) = sid s]
      else sessions_fts st)"
  have V2: "fts_values (bind_row t2 s) = V"
    by (simp add: V_def fts_values_bind_row_now [of t2 s t1])
  have "set X \<subseteq> set (sessions_fts st)"
    using foldl_sessions_ad_subset by (simp add: X_def)
  with assms have X: "\<forall>p \<in> set X. fst p < r"
    by (auto simp: r_def)
  have I1: "sessions_fts (save t1 s st) = X @ fts5_postings r V"
    using fts5_insert_fresh(1) [OF X] by (simp add: sessions_fts_save X_def r_def V_def)
  have m1: "fts5_match q (sessions_fts (save t1 s st)) \<longleftrightarrow> fts5_match q X \<or> fts5_match q (fts5_postings r V)"
    using fts5_insert_fresh(2) [OF X] by (simp add: sessions_fts_save X_def r_def V_def)
  have r2: "new_rowid (sessions (save t1 s st)) = r + 1"
    by (simp add: sessions_save new_rowid_snoc r_def)
  define Y where "Y = (if recursive_triggers st then X else X @ fts5_postings r V)"
  from X have "\<forall>p \<in> set X. fst p \<noteq> r" by fastforce
  then have "fts5_delete r V (X @ fts5_postings r V) = X"
    by (simp add: fts5_delete_append fts5_delete_postings fts5_delete_other)
  then have I2: "sessions_fts (save t2 s (save t1 s st)) = fts5_insert (r + 1) V Y"
    by (simp add: sessions_fts_save [of t2] recursive_triggers_save replaced_after_save I1 r2 V2
          sessions_ad_def Y_def r_def [symmetric] V_def [symmetric])
  have Y: "\<forall>p \<in> set Y. fst p < r + 1"
  proof
    fix p assume "p \<in> set Y"
    then consider "p \<in> set X" | "p \<in> set (fts5_postings r V)"
      by (auto simp: Y_def split: if_splits)
    then show "fst p < r + 1"
    proof cases
      case 1
      with X have "fst p < r" by blast
      then show ?thesis by simp
    next
      case 2
      then have "fst p = r" by (rule posting_rowid)
      then show ?thesis by simp
    qed
  qed
  have mY: "fts5_match q Y \<longleftrightarrow> recursive_triggers st \<and> fts5_match q X \<or> \<not> recursive_triggers st \<and> fts5_match q (sessions_fts (save t1 s st))"
    by (simp add: Y_def I1)
  have "fts5_match q (sessions_fts (save t2 s (save t1 s st))) \<longleftrightarrow> fts5_match q Y \<or> fts5_match q (fts5_postings (r + 1) V)"
    unfolding I2 by (rule fts5_insert_fresh(2) [OF Y])
  also have "\<dots> \<longleftrightarrow> fts5_match q Y \<or> fts5_match q (fts5_postings r V)"
    using fts5_match_postings [of q "r + 1" V r] by simp
  also have "\<dots> \<longleftrightarrow> fts5_match q (sessions_fts (save t1 s st))"
    using mY m1 by blast
  finally show ?thesis .
qed

text \<open>
  What a second save of the same session cannot change, whatever the database held before
  and whether or not recursive triggers are on: the results of \<open>getById\<close>, \<open>getAll\<close> and
  \<open>getStats\<close>. After a save the table holds exactly one row with the session's id, the row
  bound from the session that was saved, and the rows with other ids are the ones it held
  before: a save over an existing id replaces the row, it neither fails nor adds a second
  row.
\<close>

lemma save_twice_reads:
  "(let st1 = save t1 s st; st2 = save t2 s st1
    in (\<forall>i. getById i st2 = getById i st1)
     \<and> (\<forall>includeArchived. getAll includeArchived st2 = getAll includeArchived st1)
     \<and> getStats e st2 = getStats e st1
     \<and> [r \<leftarrow> table_rows st1. col_id r = sid s] = [bind_row t1 s]
     \<and> [r \<leftarrow> table_rows st1. col_id r \<noteq> sid s] = [r \<leftarrow> table_rows st. col_id r \<noteq> sid s]
     \<and> getById (sid s) st1 = Some (rowToSession (bind_row t1 s)))"
proof -
  let ?st1 = "save t1 s st" and ?st2 = "save t2 s (save t1 s st)"
  have get: "getById i ?st2 = getById i ?st1" for i
  proof (cases "i = sid s")
    case True
    then show ?thesis by (simp add: getById_save_same rowToSession_bind_row_now [of t2 s t1])
  next
    case False
    then show ?thesis by (simp add: getById_save_other)
  qed
  have all: "getAll inc ?st2 = getAll inc ?st1" for inc
    using rows_save_twice by (rule getAll_visible)
  have stats: "getStats e ?st2 = getStats e ?st1"
    using rows_save_twice by (rule getStats_visible)
  have one: "[r \<leftarrow> table_rows ?st1. col_id r = sid s] = [bind_row t1 s]"
    by (simp add: table_rows_save col_id_bind_row filter_empty_conv)
  have rest: "[r \<leftarrow> table_rows ?st1. col_id r \<noteq> sid s] = [r \<leftarrow> table_rows st. col_id r \<noteq> sid s]"
    by (simp add: table_rows_save col_id_bind_row)
  show ?thesis
    using get all stats one rest by (simp add: Let_def getById_save_same)
qed

text \<open>
  The results of \<open>search\<close> stay the same as well when the index holds no posting at or
  beyond the next rowid. A new store is in that state, and \<open>save\<close> keeps it.
\<close>

lemma save_twice_search_fresh:
  assumes "\<forall>p \<in> set (sessions_fts st). fst p < new_rowid (sessions st)"
  shows "search q limit (save t2 s (save t1 s st)) = search q limit (save t1 s st)"
proof -
  have "fts_stmt_all arg limit (save t2 s (save t1 s st)) = fts_stmt_all arg limit (save t1 s st)" for arg
    unfolding fts_stmt_all_def fts5_match_save_twice [OF assms] by (rule refl)
  moreover have "simplSearch q limit (save t2 s (save t1 s st)) = simplSearch q limit (save t1 s st)"
    using rows_save_twice by (rule simplSearch_visible)
  ultimately show ?thesis by (simp add: search_cases)
qed

lemma fresh_index_new: "\<forall>p \<in> set (sessions_fts (new_store path rt)). fst p < new_rowid (sessions (new_store path rt))"
  by (simp add: new_store_def)

lemma fresh_index_save:
  assumes "\<forall>p \<in> set (sessions_fts st). fst p < new_rowid (sessions st)"
  shows "\<forall>p \<in> set (sessions_fts (save t s st)). fst p < new_rowid (sessions (save t s st))"
proof
  fix p assume p: "p \<in> set (sessions_fts (save t s st))"
  define X where "X = (if recursive_triggers st
      then foldl (\<lambda>fts e. sessions_ad e fts) (sessions_fts st) [e \<leftarrow> sessions st. col_id (snd e) = sid s]
      else sessions_fts st)"
  have "set X \<subseteq> set (sessions_fts st)"
    using foldl_sessions_ad_subset by (simp add: X_def)
  with assms have X: "\<forall>p \<in> set X. fst p < new_rowid (sessions st)"
    by auto
  have "sessions_fts (save t s st) = X @ fts5_postings (new_rowid (sessions st)) (fts_values (bind_row t s))"
    using fts5_insert_fresh(1) [OF X] by (simp add: sessions_fts_save X_def)
  with p consider "p \<in> set X" | "p \<in> set (fts5_postings (new_rowid (sessions st)) (fts_values (bind_row t s)))"
    by auto
  then have "fst p < new_rowid (sessions st) + 1"
  proof cases
    case 1
    with X have "fst p < new_rowid (sessions st)" by blast
    then show ?thesis by simp
  next
    case 2
    then have "fst p = new_rowid (sessions st)" by (rule posting_rowid)
    then show ?thesis by simp
  qed
  then show "fst p < new_rowid (sessions (save t s st))"
    by (simp add: sessions_save new_rowid_snoc)
qed

lemma fix_tokens:
  "map tokenize (fts_values (bind_row t fix_session)) =
     [[''session'', ''2''], [''fix'', ''logout''], [''bugfix'', ''logins''], [],
      [''test'', ''file1'', ''ts'', ''test'', ''file2'', ''ts''], [''last'', ''user'', ''message''],
      [''last'', ''assistant'', ''message''], [''test'', ''typescript'']]"
  by (simp add: fts_values_def bind_row_def fix_session_def createTestSession_def tokenize_def
        json_tasks_def json_strings_def json_array_def json_string_def json_escape_def
        is_token_char_def ascii_lower_def)

lemma progress_tokens:
  "map tokenize (fts_values (bind_row t (progress_session sm))) =
     [[''session'', ''1''], tokenize sm, [''test'', ''session'', ''description''], [],
      [''test'', ''file1'', ''ts'', ''test'', ''file2'', ''ts''], [''last'', ''user'', ''message''],
      [''last'', ''assistant'', ''message''], [''test'', ''typescript'']]"
  by (simp add: fts_values_def bind_row_def progress_session_def createTestSession_def tokenize_def
        json_tasks_def json_strings_def json_array_def json_string_def json_escape_def
        is_token_char_def ascii_lower_def)

lemma summary_tokens:
  "tokenize ''Read the code'' = [''read'', ''the'', ''code'']"
  "tokenize ''Update login page'' = [''update'', ''login'', ''page'']"
  "tokenize ''fix login'' = [''fix'', ''login'']"
  by (simp_all add: tokenize_def is_token_char_def ascii_lower_def)

lemma session_ids:
  "sid (progress_session sm) = ''session_1''"
  "sid fix_session = ''session_2''"
  by (simp_all add: progress_session_def fix_session_def createTestSession_def)

lemma reused_store_eq:
  "sessions reused_store = []"
  "recursive_triggers reused_store = False"
  "sessions_fts reused_store =
     fts5_postings 1 (fts_values (bind_row 101 (progress_session ''Read the code'')))
     @ fts5_postings 2 (fts_values (bind_row 102 (progress_session ''Update login page'')))"
  by (simp_all add: reused_store_def delete_def sql_delete_def save_def Let_def new_store_def
        new_rowid_def sessions_ai_def sessions_ad_def fts5_insert_def col_id_bind_row session_ids
        fts5_delete_Nil fts5_delete_append fts5_delete_postings fts5_delete_postings_other)

lemma once_rows:
  "sessions (save 104 fix_session reused_store) = [(1, bind_row 104 fix_session)]"
  by (simp add: sessions_save reused_store_eq new_rowid_def)

lemma once_index:
  "sessions_fts (save 104 fix_session reused_store) =
     [(1, ''1'', 0, 1), (1, ''read'', 1, 0), (1, ''the'', 1, 1), (1, ''code'', 1, 2),
      (1, ''description'', 2, 2),
      (2, ''session'', 0, 0), (2, ''1'', 0, 1), (2, ''update'', 1, 0), (2, ''login'', 1, 1),
      (2, ''page'', 1, 2), (2, ''test'', 2, 0), (2, ''session'', 2, 1), (2, ''description'', 2, 2),
      (2, ''test'', 4, 0), (2, ''file1'', 4, 1), (2, ''ts'', 4, 2), (2, ''test'', 4, 3),
      (2, ''file2'', 4, 4), (2, ''ts'', 4, 5), (2, ''last'', 5, 0), (2, ''user'', 5, 1),
      (2, ''message'', 5, 2), (2, ''last'', 6, 0), (2, ''assistant'', 6, 1), (2, ''message'', 6, 2),
      (2, ''test'', 7, 0), (2, ''typescript'', 7, 1),
      (1, ''session'', 0, 0), (1, ''2'', 0, 1), (1, ''fix'', 1, 0), (1, ''logout'', 1, 1),
      (1, ''bugfix'', 2, 0), (1, ''logins'', 2, 1), (1, ''test'', 4, 0), (1, ''file1'', 4, 1),
      (1, ''ts'', 4, 2), (1, ''test'', 4, 3), (1, ''file2'', 4, 4), (1, ''ts'', 4, 5),
      (1, ''last'', 5, 0), (1, ''user'', 5, 1), (1, ''message'', 5, 2), (1, ''last'', 6, 0),
      (1, ''assistant'', 6, 1), (1, ''message'', 6, 2), (1, ''test'', 7, 0),
      (1, ''typescript'', 7, 1)]"
  by (simp add: sessions_fts_save reused_store_eq new_rowid_def fts5_insert_def fts5_delete_def
        fts5_postings_tokens progress_tokens fix_tokens summary_tokens)

lemma once_no_match: "\<not> fts5_match ''fix login'' (sessions_fts (save 104 fix_session reused_store))"
  unfolding once_index by (simp add: fts5_match_def summary_tokens)

lemma twice_rows:
  "sessions (save 105 fix_session (save 104 fix_session reused_store)) = [(2, bind_row 105 fix_session)]"
  by (simp add: sessions_save [of 105] once_rows new_rowid_def col_id_bind_row)

lemma twice_match: "fts5_match ''fix login'' (sessions_fts (save 105 fix_session (save 104 fix_session reused_store)))"
proof -
  let ?fts = "sessions_fts (save 105 fix_session (save 104 fix_session reused_store))"
  have eq: "?fts = fts5_insert 2 (fts_values (bind_row 105 fix_session)) (sessions_fts (save 104 fix_session reused_store))"
    by (simp add: sessions_fts_save [of 105] recursive_triggers_save reused_store_eq once_rows new_rowid_def)
  have first: "(2, ''fix'', Suc 0, 0) \<in> set ?fts" and second: "(2, ''login'', Suc 0, Suc 0) \<in> set ?fts"
    unfolding eq once_index
    by (simp_all add: fts5_insert_def fts5_delete_def fts5_postings_tokens fix_tokens)
  from second have "phrase_at ?fts 2 (Suc 0) (Suc 0) [''login'']"
    unfolding phrase_at_last using starts_with_refl by blast
  with first have "phrase_at ?fts 2 (Suc 0) 0 [''fix'', ''login'']"
    by simp
  with first show ?thesis
    unfolding fts5_match_iff summary_tokens by blast
qed

lemma fix_login_parsed:
  "fts5_parse ([CHR 0x22] @ [c \<leftarrow> ''fix login''. c \<noteq> CHR 0x27 \<and> c \<noteq> CHR 0x22] @ [CHR 0x22] @ ''*'')
     = Some ''fix login''"
  using fts5_parse_quoted [of "''fix login''"] by simp

lemma fix_session_columns:
  "col_summary (bind_row t fix_session) = ''Fix logout''"
  "col_description (bind_row t fix_session) = ''Bugfix logins''"
  "col_last_user_message (bind_row t fix_session) = ''Last user message''"
  "sid (rowToSession (bind_row t fix_session)) = ''session_2''"
  by (simp_all add: bind_row_def rowToSession_def fix_session_def createTestSession_def)

lemma fix_login_like:
  "\<not> sql_like ''Fix logout'' ''%fix login%''"
  "sql_like ''Bugfix logins'' ''%fix login%''"
  by (simp_all add: sql_like_def cstring_Cons cstring_Nil ascii_lower_def)

text \<open>
  C2 fails for \<open>search\<close>. \<open>INSERT OR REPLACE\<close> removes the row it replaces without firing
  the delete trigger (recursive triggers are off), so the postings of a replaced row stay
  in the index, and when the rows above it are deleted its rowid is given out again.
  In \<open>reused_store\<close> the session \<open>session_1\<close> was saved three times and then deleted; the
  table is empty and the index still holds the postings of its first two saves under the
  rowids 1 and 2. The first save of \<open>fix_session\<close> takes rowid 1, and \<open>search("fix login")\<close>
  finds nothing. The second save takes rowid 2, where \<open>fix\<close> of the new summary comes to
  stand before \<open>login\<close> of the old summary \<open>Update login page\<close>: the full-text statement
  now has a match, fails on reading the row, and the fallback returns the session, whose
  description contains \<open>fix login\<close>.
\<close>

theorem save_twice_search:
  "table_rows reused_store = []
   \<and> search ''fix login'' 20 (save 104 fix_session reused_store) = []
   \<and> map (sid \<circ> session)
         (search ''fix login'' 20 (save 105 fix_session (save 104 fix_session reused_store)))
       = [''session_2'']"
proof -
  let ?once = "save 104 fix_session reused_store"
  let ?twice = "save 105 fix_session (save 104 fix_session reused_store)"
  have stmt: "isl (fts_stmt_all ([CHR 0x22] @ [c \<leftarrow> ''fix login''. c \<noteq> CHR 0x27 \<and> c \<noteq> CHR 0x22] @ [CHR 0x22] @ ''*'') 20 st)
                = fts5_match ''fix login'' (sessions_fts st)" for st
    unfolding fts_stmt_all_def fix_login_parsed by simp
  have "search ''fix login'' 20 ?once = []"
    unfolding search_cases stmt using once_no_match by simp
  moreover have "search ''fix login'' 20 ?twice = simplSearch ''fix login'' 20 ?twice"
    unfolding search_cases stmt using twice_match by simp
  moreover have "map session (simplSearch ''fix login'' 20 ?twice) = [rowToSession (bind_row 105 fix_session)]"
    by (simp add: session_simplSearch table_rows_def twice_rows fix_session_columns fix_login_like
          order_by_started_at_desc_def sql_limit_def)
  then have "map (sid \<circ> session) (simplSearch ''fix login'' 20 ?twice) = [''session_2'']"
    by (simp add: fix_session_columns flip: map_map)
  ultimately show ?thesis
    by (simp add: table_rows_def reused_store_eq)
qed

section \<open>\<open>runCleanup\<close> and the storage quota\<close>

lemma quota_rows:
  "table_rows quota_store =
     [bind_row scenario_now
        ((createTestSession ''old_session'')
          \<lparr>tasks := [], archived := True, archivedAt := Some scenario_now,
           logFileArchived := Some ''/home/user/.cc-sessions/archive/old_session.jsonl.gz''\<rparr>)]"
  by (simp add: quota_store_def saved_fresh)

lemma quota_archived:
  "getArchived quota_store =
     [rowToSession (bind_row scenario_now
        ((createTestSession ''old_session'')
          \<lparr>tasks := [], archived := True, archivedAt := Some scenario_now,
           logFileArchived := Some ''/home/user/.cc-sessions/archive/old_session.jsonl.gz''\<rparr>))]"
  by (simp add: getArchived_def quota_rows)
     (simp add: bind_row_def number_or_null_def scenario_now_def)

lemma quota_usage: "calculateStorageUsed quota_env = 2000004096"
  by (simp add: calculateStorageUsed_def getDirSize_def quota_env_def)

lemma quota_db_size: "storageUsedBytes (getStats quota_env st) = 4096"
  by (simp add: getStats_size quota_env_def statSync_size_def)

text \<open>
  C4 in the situation of \<open>quota_env\<close>: \<open>runCleanup\<close> does nothing, and afterwards the
  directory holds more than the ceiling of one gigabyte while the session is still stored.
  Step 4 compares the ceiling with \<open>stats.storageUsedBytes\<close>, the size of the database file
  alone, while the loop it guards measures the whole directory with
  \<open>calculateStorageUsed\<close>; the archive files never get the trim phase started.
\<close>

theorem runCleanup_over_quota:
  "runCleanup (\<lambda>logFile. 0) scenario_now quota_config (quota_env, quota_store)
     = (\<lparr>sessionsArchived = 0, sessionsDeleted = 0, bytesFreed = 0, logFilesBackedUp = 0\<rparr>,
        quota_env, quota_store)
   \<and> real (calculateStorageUsed quota_env) > maxStorageGb quota_config * 1000000000
   \<and> map col_id (table_rows quota_store) = [''old_session'']"
proof -
  have forever: "archive_step scenario_now quota_config st = (0, st)"
       "delete_step scenario_now quota_config e st = (0, 0, st)" for e st
    by (simp_all add: archive_step_def delete_step_def quota_config_def parseDays_def)
  have skip: "compress_loop (\<lambda>logFile. 0) scenario_now (getArchived quota_store) (0, quota_env, quota_store)
                = (0, quota_env, quota_store)"
    by (simp add: quota_archived)
       (simp add: rowToSession_def bind_row_def createTestSession_def string_or_null_def)
  have limit: "maxStorageGb quota_config = 1" by (simp add: quota_config_def)
  have "runCleanup (\<lambda>logFile. 0) scenario_now quota_config (quota_env, quota_store)
     = (\<lparr>sessionsArchived = 0, sessionsDeleted = 0, bytesFreed = 0, logFilesBackedUp = 0\<rparr>,
        quota_env, quota_store)"
    by (simp add: runCleanup_def forever skip quota_db_size limit)
  moreover have "map col_id (table_rows quota_store) = [''old_session'']"
    by (simp add: quota_rows col_id_bind_row createTestSession_def)
  ultimately show ?thesis
    by (simp add: quota_usage limit)
qed


lemma table_rows_sql_delete:
  "table_rows (snd (sql_delete cond st)) = [r \<leftarrow> table_rows st. \<not> cond r]"
  by (simp add: sql_delete_def table_rows_def filter_map comp_def)

lemma table_rows_delete: "table_rows (snd (delete i st)) = [r \<leftarrow> table_rows st. col_id r \<noteq> i]"
  by (simp add: delete_def split_beta table_rows_sql_delete)

lemma trim_loop_spec:
  assumes "trim_loop maxBytes ss (calculateStorageUsed e, d, f, e, st) = (cur', d', f', e', st')"
  shows "cur' = calculateStorageUsed e'
         \<and> (real cur' \<le> maxBytes \<or> (\<forall>s \<in> set ss. sid s \<notin> col_id ` set (table_rows st')))
         \<and> set (table_rows st') \<subseteq> set (table_rows st)"
  using assms
proof (induction ss arbitrary: e d f st)
  case Nil
  then show ?case by auto
next
  case (Cons s ss)
  show ?case
  proof (cases "real (calculateStorageUsed e) \<le> maxBytes")
    case True
    with Cons.prems show ?thesis by auto
  next
    case False
    obtain f1 e1 where fe: "(case logFileArchived s of
                 Some p \<Rightarrow> if p \<noteq> [] \<and> existsSync p e
                           then (f + statSync_size p e, unlinkSync p e) else (f, e)
               | None \<Rightarrow> (f, e)) = (f1, e1)"
      by (cases "(case logFileArchived s of
                 Some p \<Rightarrow> if p \<noteq> [] \<and> existsSync p e
                           then (f + statSync_size p e, unlinkSync p e) else (f, e)
               | None \<Rightarrow> (f, e))")
    obtain existed st1 where del: "delete (sid s) st = (existed, st1)"
      by (cases "delete (sid s) st")
    obtain d1 f2 where df: "(if existed then (d + 1, f1 + 5000) else (d, f1)) = (d1, f2)"
      by (cases "if existed then (d + 1, f1 + 5000) else (d, f1)")
    from Cons.prems False
    have step: "trim_loop maxBytes ss (calculateStorageUsed e1, d1, f2, e1, st1)
                  = (cur', d', f', e', st')"
      by (simp add: fe del df)
    from Cons.IH [OF step]
    have ih: "cur' = calculateStorageUsed e'"
        "real cur' \<le> maxBytes \<or> (\<forall>x \<in> set ss. sid x \<notin> col_id ` set (table_rows st'))"
        "set (table_rows st') \<subseteq> set (table_rows st1)"
      by blast+
    have rows1: "table_rows st1 = [r \<leftarrow> table_rows st. col_id r \<noteq> sid s]"
      using table_rows_delete [of "sid s" st] by (simp add: del)
    then have "sid s \<notin> col_id ` set (table_rows st1)" by auto
    with ih(3) have gone: "sid s \<notin> col_id ` set (table_rows st')" by auto
    from ih(3) rows1 have "set (table_rows st') \<subseteq> set (table_rows st)" by auto
    with ih gone show ?thesis by auto
  qed
qed

lemma sid_getAll: "sid ` set (getAll True st) = col_id ` set (table_rows st)"
  by (auto simp: getAll_def order_by_started_at_desc_def rowToSession_def image_iff)

text \<open>
  The loop of \<open>trimToStorageLimit\<close> does what the claim says of the quota-trim phase: it
  goes through all sessions oldest first and ends either with the usage at or below the
  ceiling or with every row deleted.
\<close>

lemma trimToStorageLimit_spec:
  assumes "trimToStorageLimit maxBytes (e, st) = (counts, e', st')"
  shows "real (calculateStorageUsed e') \<le> maxBytes \<or> table_rows st' = []"
proof -
  define ss where "ss = sort_key startedAt (getAll True st)"
  obtain cur' d' f' where loop: "trim_loop maxBytes ss (calculateStorageUsed e, 0, 0, e, st) = (cur', d', f', e', st')"
    using assms by (auto simp: trimToStorageLimit_def ss_def Let_def split: prod.splits)
  from trim_loop_spec [OF loop]
  have cur: "cur' = calculateStorageUsed e'"
    and alt: "real cur' \<le> maxBytes \<or> (\<forall>s \<in> set ss. sid s \<notin> col_id ` set (table_rows st'))"
    and sub: "set (table_rows st') \<subseteq> set (table_rows st)"
    by blast+
  show ?thesis
  proof (cases "real cur' \<le> maxBytes")
    case True
    with cur show ?thesis by simp
  next
    case False
    with alt have none: "\<forall>s \<in> set ss. sid s \<notin> col_id ` set (table_rows st')" by simp
    have "sid ` set ss = col_id ` set (table_rows st)"
      by (simp add: ss_def sid_getAll)
    with none have gone: "\<forall>r \<in> set (table_rows st). col_id r \<notin> col_id ` set (table_rows st')"
      by (metis (no_types, lifting) image_iff)
    have "table_rows st' = []"
    proof (rule ccontr)
      assume "table_rows st' \<noteq> []"
      then obtain r where r: "r \<in> set (table_rows st')"
        by (cases "table_rows st'") auto
      with sub have "r \<in> set (table_rows st)" by blast
      with gone have "col_id r \<notin> col_id ` set (table_rows st')" by blast
      with r show False by blast
    qed
    then show ?thesis by simp
  qed
qed

lemma trim_order:
  "sorted (map startedAt (sort_key startedAt (getAll True st)))"
  by (rule sorted_sort_key)

text \<open>
  What \<open>runCleanup\<close> as a whole guarantees: the trim phase is entered only when the
  database file at \<open>DB_PATH\<close> alone exceeds the ceiling, so afterwards that file is within
  the ceiling, or the whole directory is, or no row is left.
\<close>

lemma runCleanup_quota:
  assumes "runCleanup gzipSize now config (e, st) = (report, e', st')"
  shows "real (statSync_size (DB_PATH e') e') \<le> maxStorageGb config * 1000000000
         \<or> real (calculateStorageUsed e') \<le> maxStorageGb config * 1000000000
         \<or> table_rows st' = []"
proof -
  define maxBytes where "maxBytes = maxStorageGb config * 1000000000"
  obtain a st1 where p1: "archive_step now config st = (a, st1)"
    by (cases "archive_step now config st")
  obtain b e2 st2 where p2: "compress_loop gzipSize now (getArchived st1) (0, e, st1) = (b, e2, st2)"
    by (cases "compress_loop gzipSize now (getArchived st1) (0, e, st1)")
  obtain d fr st3 where p3: "delete_step now config e2 st2 = (d, fr, st3)"
    by (cases "delete_step now config e2 st2")
  show ?thesis
  proof (cases "real (storageUsedBytes (getStats e2 st3)) > maxBytes")
    case True
    obtain counts e4 st4 where p4: "trimToStorageLimit maxBytes (e2, st3) = (counts, e4, st4)"
      by (cases "trimToStorageLimit maxBytes (e2, st3)")
    from assms True have "e' = e4" "st' = st4"
      by (simp_all add: runCleanup_def p1 p2 p3 p4 maxBytes_def [symmetric] split_beta)
    with trimToStorageLimit_spec [OF p4] show ?thesis by (simp add: maxBytes_def)
  next
    case False
    with assms have "e' = e2"
      by (simp add: runCleanup_def p1 p2 p3 maxBytes_def [symmetric])
    with False show ?thesis
      by (simp add: getStats_size maxBytes_def DB_PATH_def DB_DIR_def)
  qed
qed

end
